theory Spec2Isabelle
  imports Complex_Main "HOL-Library.Monad_Syntax"
begin

section \<open>The array runtime\<close>

text \<open>
  The cell of \<^verbatim>\<open>src/lts.py\<close> computes with the tensors of its array runtime. A tensor is
  a shape and its entries in row-major order. The runtime's 32-bit floats are idealised
  as real numbers: rounding, overflow, infinities and NaN are outside this model, and a
  division by zero has HOL's value 0 where the runtime gives an infinity or NaN. The one
  exception is the gating function, whose range is a statement about the floats
  themselves: it is given a second time over \<open>float32\<close> values. A failing
  operation (incompatible shapes, an index out of range, a missing attribute) raises in
  Python; here it returns \<open>None\<close>.
\<close>

datatype 'a tensor = Tensor (shape: "nat list") (data: "'a list")

definition well_shaped :: "'a tensor \<Rightarrow> bool" where
  "well_shaped t \<longleftrightarrow> length (data t) = prod_list (shape t)"

text \<open>Row-major offset of a multi-index, and the multi-index of an offset.\<close>

fun ravel :: "nat list \<Rightarrow> nat list \<Rightarrow> nat" where
  "ravel (n # sh) (i # idx) = i * prod_list sh + ravel sh idx"
| "ravel _ _ = 0"

fun unravel :: "nat list \<Rightarrow> nat \<Rightarrow> nat list" where
  "unravel [] k = []"
| "unravel (n # sh) k = (k div prod_list sh) # unravel sh (k mod prod_list sh)"

fun valid_index :: "nat list \<Rightarrow> nat list \<Rightarrow> bool" where
  "valid_index [] [] = True"
| "valid_index (n # sh) (i # idx) = (i < n \<and> valid_index sh idx)"
| "valid_index _ _ = False"

definition entry :: "'a tensor \<Rightarrow> nat list \<Rightarrow> 'a" where
  "entry t idx = data t ! ravel (shape t) idx"

definition tabulate :: "nat list \<Rightarrow> (nat list \<Rightarrow> 'a) \<Rightarrow> 'a tensor" where
  "tabulate sh f = Tensor sh (map (\<lambda>k. f (unravel sh k)) [0..<prod_list sh])"

definition scalar :: "'a \<Rightarrow> 'a tensor" where
  "scalar x = Tensor [] [x]"

definition tf_fill :: "nat list \<Rightarrow> 'a \<Rightarrow> 'a tensor" where
  "tf_fill sh x = Tensor sh (replicate (prod_list sh) x)"

definition tf_map :: "('a \<Rightarrow> 'b) \<Rightarrow> 'a tensor \<Rightarrow> 'b tensor" where
  "tf_map f t = Tensor (shape t) (map f (data t))"

text \<open>
  Broadcasting: shapes are aligned at their last dimension; two dimensions are
  compatible when they are equal or one of them is 1.
\<close>

definition broadcast_dim :: "nat \<Rightarrow> nat \<Rightarrow> nat option" where
  "broadcast_dim m n =
     (if m = n then Some m else if m = 1 then Some n else if n = 1 then Some m else None)"

fun broadcast_rev :: "nat list \<Rightarrow> nat list \<Rightarrow> nat list option" where
  "broadcast_rev [] ys = Some ys"
| "broadcast_rev xs [] = Some xs"
| "broadcast_rev (x # xs) (y # ys) =
     do { d \<leftarrow> broadcast_dim x y; r \<leftarrow> broadcast_rev xs ys; Some (d # r) }"

definition broadcast_shape :: "nat list \<Rightarrow> nat list \<Rightarrow> nat list option" where
  "broadcast_shape s1 s2 = map_option rev (broadcast_rev (rev s1) (rev s2))"

text \<open>The index an operand of shape \<open>sh\<close> is read at, for the index \<open>idx\<close> of the result.\<close>

definition source_index :: "nat list \<Rightarrow> nat list \<Rightarrow> nat list" where
  "source_index sh idx =
     map2 (\<lambda>n i. if n = 1 then 0 else i) sh (drop (length idx - length sh) idx)"

definition binop :: "('a \<Rightarrow> 'a \<Rightarrow> 'a) \<Rightarrow> 'a tensor \<Rightarrow> 'a tensor \<Rightarrow> 'a tensor option" where
  "binop f a b =
     (case broadcast_shape (shape a) (shape b) of
        None \<Rightarrow> None
      | Some rs \<Rightarrow>
          Some (tabulate rs (\<lambda>idx. f (entry a (source_index (shape a) idx))
                                    (entry b (source_index (shape b) idx)))))"

definition tf_add :: "real tensor \<Rightarrow> real tensor \<Rightarrow> real tensor option" where
  "tf_add = binop (+)"

definition tf_subtract :: "real tensor \<Rightarrow> real tensor \<Rightarrow> real tensor option" where
  "tf_subtract = binop (-)"

definition tf_multiply :: "real tensor \<Rightarrow> real tensor \<Rightarrow> real tensor option" where
  "tf_multiply = binop (*)"

definition tf_divide :: "real tensor \<Rightarrow> real tensor \<Rightarrow> real tensor option" where
  "tf_divide = binop (/)"

text \<open>\<^verbatim>\<open>tf.reduce_sum(input_tensor = t, axis = k)\<close> for a non-negative axis.\<close>

definition tf_reduce_sum :: "real tensor \<Rightarrow> nat \<Rightarrow> real tensor option" where
  "tf_reduce_sum t axis =
     (if axis < length (shape t)
      then Some (tabulate (take axis (shape t) @ drop (Suc axis) (shape t))
                   (\<lambda>idx. sum_list (map (\<lambda>k. entry t (take axis idx @ k # drop axis idx))
                                       [0..<shape t ! axis])))
      else None)"

text \<open>
  \<^verbatim>\<open>tf.reshape(t, dims)\<close>: the entries stay in row-major order. One dimension may be
  \<open>-1\<close> and is then inferred: the number of entries of \<open>t\<close> divided by the product of the
  other dimensions. Dimensions that are 0 are left out of that product, and when \<open>dims\<close>
  has one, the dimensions of \<open>t\<close> that are 0 are left out of the number of entries too, so
  that the dimension is inferred for an empty tensor as well. The division has to be
  exact (unless \<open>t\<close> had a 0 left out), and the new shape has to hold as many entries as
  the old.
\<close>

definition tf_reshape :: "'a tensor \<Rightarrow> int list \<Rightarrow> 'a tensor option" where
  "tf_reshape t dims =
     (let sizes_has_zero_dim = list_ex (\<lambda>d. d = 0) dims;
          product = nat (prod_list (filter (\<lambda>d. d \<noteq> - 1 \<and> d \<noteq> 0) dims));
          input_num_elements = prod_list (filter (\<lambda>d. 0 < d \<or> \<not> sizes_has_zero_dim) (shape t));
          input_has_zero_dim = (sizes_has_zero_dim \<and> list_ex (\<lambda>d. d = 0) (shape t));
          missing = input_num_elements div product;
          new_shape = map (\<lambda>d. if d = - 1 then missing else nat d) dims
      in if list_ex (\<lambda>d. d < - 1) dims then None
         else if 1 < length (filter (\<lambda>d. d = - 1) dims) then None
         else if list_ex (\<lambda>d. d = - 1) dims \<and> \<not> input_has_zero_dim
                 \<and> product * missing \<noteq> input_num_elements then None
         else if prod_list new_shape = prod_list (shape t) then Some (Tensor new_shape (data t))
         else None)"

text \<open>\<^verbatim>\<open>t[0]\<close> on a tensor: the first slice along the leading dimension.\<close>

definition tf_getitem0 :: "'a tensor \<Rightarrow> 'a tensor option" where
  "tf_getitem0 t =
     (case shape t of
        [] \<Rightarrow> None
      | n # sh \<Rightarrow> if n = 0 then None else Some (Tensor sh (take (prod_list sh) (data t))))"

text \<open>\<^verbatim>\<open>t.shape[-1]\<close>: the last dimension; an error on a scalar.\<close>

definition last_dim :: "'a tensor \<Rightarrow> nat option" where
  "last_dim t = (if shape t = [] then None else Some (last (shape t)))"

text \<open>
  A Python tuple of tensors that meets a tensor in an arithmetic operation is converted
  to one tensor by stacking its components along a new leading dimension.
\<close>

definition tf_stack :: "'a tensor list \<Rightarrow> 'a tensor option" where
  "tf_stack ts =
     (case ts of
        [] \<Rightarrow> Some (Tensor [0] [])
      | t # rest \<Rightarrow>
          if list_all (\<lambda>r. shape r = shape t) rest
          then Some (Tensor (length ts # shape t) (concat (map data ts)))
          else None)"

definition nn_sigmoid :: "real \<Rightarrow> real" where
  "nn_sigmoid x = 1 / (1 + exp (- x))"

definition tf_sigmoid :: "real tensor \<Rightarrow> real tensor" where
  "tf_sigmoid = tf_map nn_sigmoid"

text \<open>
  32-bit floats: the finite values, the two infinities and NaN. The two zeros are not
  told apart, and a finite value is not required to be representable: every operation
  rounds its exact result, to the nearest representable value and to the even one of two
  nearest, in units of the last of the 24 binary digits of the result (not below
  \<^verbatim>\<open>2^-149\<close>, where the subnormal numbers lie); a rounded magnitude above the largest
  float \<^verbatim>\<open>(2^24 - 1) * 2^104\<close> is an infinity. Subnormal results are kept; a runtime
  that flushes them to zero differs from this model on them.
\<close>

datatype float32 = Finite real | PosInf | NegInf | NaN

definition f32_finite :: "float32 \<Rightarrow> bool" where
  "f32_finite a = (case a of Finite _ \<Rightarrow> True | _ \<Rightarrow> False)"

definition round_half_even :: "real \<Rightarrow> int" where
  "round_half_even x =
     (let f = \<lfloor>x\<rfloor>
      in if x - of_int f < 1 / 2 then f
         else if 1 / 2 < x - of_int f then f + 1
         else if even f then f else f + 1)"

definition f32_max :: real where
  "f32_max = (2 ^ 24 - 1) * 2 ^ 104"

definition f32_round :: "real \<Rightarrow> float32" where
  "f32_round x =
     (if x = 0 then Finite 0
      else let e = max (\<lfloor>log 2 \<bar>x\<bar>\<rfloor> - 23) (- 149);
               r = of_int (round_half_even (x / 2 powr of_int e)) * 2 powr of_int e
           in if f32_max < r then PosInf else if r < - f32_max then NegInf else Finite r)"

text \<open>Subtraction and multiplication of two floats, and the negation of a float.\<close>

fun f32_subtract :: "float32 \<Rightarrow> float32 \<Rightarrow> float32" where
  "f32_subtract (Finite x) (Finite y) = f32_round (x - y)"
| "f32_subtract NaN _ = NaN"
| "f32_subtract _ NaN = NaN"
| "f32_subtract PosInf PosInf = NaN"
| "f32_subtract NegInf NegInf = NaN"
| "f32_subtract PosInf _ = PosInf"
| "f32_subtract NegInf _ = NegInf"
| "f32_subtract (Finite x) PosInf = NegInf"
| "f32_subtract (Finite x) NegInf = PosInf"

definition f32_negate :: "float32 \<Rightarrow> float32" where
  "f32_negate a =
     (case a of Finite x \<Rightarrow> Finite (- x) | PosInf \<Rightarrow> NegInf | NegInf \<Rightarrow> PosInf | NaN \<Rightarrow> NaN)"

fun f32_multiply :: "float32 \<Rightarrow> float32 \<Rightarrow> float32" where
  "f32_multiply (Finite x) (Finite y) = f32_round (x * y)"
| "f32_multiply NaN _ = NaN"
| "f32_multiply _ NaN = NaN"
| "f32_multiply (Finite x) b = (if x = 0 then NaN else if 0 < x then b else f32_negate b)"
| "f32_multiply a (Finite y) = (if y = 0 then NaN else if 0 < y then a else f32_negate a)"
| "f32_multiply PosInf b = b"
| "f32_multiply NegInf b = f32_negate b"

text \<open>
  \<^verbatim>\<open>tf.nn.sigmoid\<close> on a float, taken as the rounded value of \<open>1 / (1 + exp (- x))\<close>.
  The kernel of the runtime computes \<^verbatim>\<open>e / (1 + e)\<close> in floats for an approximation
  \<^verbatim>\<open>e\<close> of \<^verbatim>\<open>exp(min(x, 16.64))\<close> and may differ from the rounded value in the last digits;
  like the rounded value it lies between 0 and 1, and is exactly 1 for large and
  exactly 0 for large negative arguments.
\<close>

definition f32_sigmoid :: "float32 \<Rightarrow> float32" where
  "f32_sigmoid a =
     (case a of
        Finite x \<Rightarrow> f32_round (nn_sigmoid x)
      | PosInf \<Rightarrow> Finite 1
      | NegInf \<Rightarrow> Finite 0
      | NaN \<Rightarrow> NaN)"

text \<open>Python's \<^verbatim>\<open>int(x)\<close> on a float: truncation towards zero.\<close>

definition py_int :: "real \<Rightarrow> int" where
  "py_int x = (if 0 \<le> x then \<lfloor>x\<rfloor> else \<lceil>x\<rceil>)"

section \<open>The cell\<close>

text \<open>
  The recurrent state reaches the cell as a tuple of tensors; after the first
  integration sub-step the cell holds it as a single tensor.
\<close>

datatype states = StateTuple "real tensor list" | StateTensor "real tensor"

definition states_getitem0 :: "states \<Rightarrow> real tensor option" where
  "states_getitem0 s =
     (case s of
        StateTuple ts \<Rightarrow> (case ts of [] \<Rightarrow> None | t # _ \<Rightarrow> Some t)
      | StateTensor t \<Rightarrow> tf_getitem0 t)"

definition states_to_tensor :: "states \<Rightarrow> real tensor option" where
  "states_to_tensor s = (case s of StateTuple ts \<Rightarrow> tf_stack ts | StateTensor t \<Rightarrow> Some t)"

text \<open>The variables that \<^verbatim>\<open>_init_variables\<close> creates.\<close>

record variables =
  sensory_mu :: "real tensor"
  sensory_sigma :: "real tensor"
  sensory_W :: "real tensor"
  sensory_erev :: "real tensor"
  mu :: "real tensor"
  sigma :: "real tensor"
  W :: "real tensor"
  erev :: "real tensor"
  vleak :: "real tensor"
  gleak :: "real tensor"
  cm_t :: "real tensor"

text \<open>
  The fields of \<^verbatim>\<open>LTSCell\<close>. The variables do not exist before \<^verbatim>\<open>build\<close>
  (\<open>vars\<close> is \<open>None\<close>), and an attribute that is \<^verbatim>\<open>None\<close> in Python is \<open>None\<close>
  here. The unit count is a natural number. The enumeration fields and the clamping
  bounds \<^verbatim>\<open>_w_min_value\<close> ... \<^verbatim>\<open>_cm_t_max_value\<close> are read nowhere and are left out.
\<close>

record cell =
  input_size :: int
  units :: nat
  built :: bool
  time_step :: real
  brownian_motion :: "real tensor option"
  sde_solver_unfolds :: nat
  erev_init_factor :: real
  w_init_max :: real
  w_init_min :: real
  cm_init_min :: real
  cm_init_max :: real
  gleak_init_min :: real
  gleak_init_max :: real
  fix_cm :: "real tensor option"
  fix_gleak :: "real tensor option"
  fix_vleak :: "real tensor option"
  input_weights :: "real tensor option"
  input_biases :: "real tensor option"
  vars :: "variables option"

text \<open>\<^verbatim>\<open>LTSCell.__init__\<close>\<close>

definition init :: "nat \<Rightarrow> cell" where
  "init n =
     \<lparr> input_size = - 1, units = n, built = False, time_step = 1,
       brownian_motion = None, sde_solver_unfolds = 6, erev_init_factor = 1,
       w_init_max = 1, w_init_min = 1 / 100, cm_init_min = 1 / 2, cm_init_max = 1 / 2,
       gleak_init_min = 1, gleak_init_max = 1,
       fix_cm = None, fix_gleak = None, fix_vleak = None,
       input_weights = None, input_biases = None, vars = None \<rparr>"

text \<open>
  The random draws of \<^verbatim>\<open>_init_variables\<close> come from outside: for every sampling
  call, the raw samples it will receive, by position (uniform samples of the unit
  interval, draws of \<open>{0, 1}\<close>, standard normal samples).
\<close>

record samples =
  u_sensory_mu :: "nat \<Rightarrow> real"
  u_sensory_sigma :: "nat \<Rightarrow> real"
  u_sensory_W :: "nat \<Rightarrow> real"
  b_sensory_erev :: "nat \<Rightarrow> int"
  u_mu :: "nat \<Rightarrow> real"
  u_sigma :: "nat \<Rightarrow> real"
  u_W :: "nat \<Rightarrow> real"
  b_erev :: "nat \<Rightarrow> int"
  z_brownian :: "nat \<Rightarrow> real"
  u_vleak :: "nat \<Rightarrow> real"
  u_gleak :: "nat \<Rightarrow> real"
  u_cm :: "nat \<Rightarrow> real"

definition random_uniform :: "nat list \<Rightarrow> real \<Rightarrow> real \<Rightarrow> (nat \<Rightarrow> real) \<Rightarrow> real tensor" where
  "random_uniform sh lo hi g = Tensor sh (map (\<lambda>k. lo + (hi - lo) * g k) [0..<prod_list sh])"

definition random_normal :: "nat list \<Rightarrow> real \<Rightarrow> real \<Rightarrow> (nat \<Rightarrow> real) \<Rightarrow> real tensor" where
  "random_normal sh mean stddev g = Tensor sh (map (\<lambda>k. mean + stddev * g k) [0..<prod_list sh])"

text \<open>\<^verbatim>\<open>(2 * np.random.randint(0, 2, size) - 1) * factor\<close>\<close>

definition random_erev :: "nat list \<Rightarrow> real \<Rightarrow> (nat \<Rightarrow> int) \<Rightarrow> real tensor" where
  "random_erev sh factor g =
     Tensor sh (map (\<lambda>k. of_int (2 * g k - 1) * factor) [0..<prod_list sh])"

text \<open>A variable created from a fixed value with an explicit shape.\<close>

definition fixed_variable :: "real tensor \<Rightarrow> nat list \<Rightarrow> real tensor option" where
  "fixed_variable v sh = (if shape v = sh then Some v else None)"

definition init_variables :: "cell \<Rightarrow> samples \<Rightarrow> cell option" where
  "init_variables c smp =
     (if input_size c < 0 then None
      else do {
        let n = nat (input_size c);
        let u = units c;
        vl \<leftarrow> (case fix_vleak c of
                 None \<Rightarrow> Some (random_uniform [u] (- (1 / 5)) (1 / 5) (u_vleak smp))
               | Some v \<Rightarrow> fixed_variable v [u]);
        gl \<leftarrow> (case fix_gleak c of
                 None \<Rightarrow>
                   Some (if gleak_init_max c > gleak_init_min c
                         then random_uniform [u] (gleak_init_min c) (gleak_init_max c) (u_gleak smp)
                         else scalar (gleak_init_min c))
               | Some v \<Rightarrow> fixed_variable v [u]);
        cm \<leftarrow> (case fix_cm c of
                 None \<Rightarrow>
                   Some (if cm_init_max c > cm_init_min c
                         then random_uniform [u] (cm_init_min c) (cm_init_max c) (u_cm smp)
                         else scalar (cm_init_min c))
               | Some v \<Rightarrow> fixed_variable v [u]);
        Some (c\<lparr> brownian_motion :=
                   Some (random_normal [u] 0 (sqrt (time_step c)) (z_brownian smp)),
                 vars := Some
                   \<lparr> sensory_mu = random_uniform [n, u] (3 / 10) (8 / 10) (u_sensory_mu smp),
                     sensory_sigma = random_uniform [n, u] 3 8 (u_sensory_sigma smp),
                     sensory_W =
                       random_uniform [n, u] (w_init_min c) (w_init_max c) (u_sensory_W smp),
                     sensory_erev = random_erev [n, u] (erev_init_factor c) (b_sensory_erev smp),
                     mu = random_uniform [u, u] (3 / 10) (8 / 10) (u_mu smp),
                     sigma = random_uniform [u, u] 3 8 (u_sigma smp),
                     W = random_uniform [u, u] (w_init_min c) (w_init_max c) (u_W smp),
                     erev = random_erev [u, u] (erev_init_factor c) (b_erev smp),
                     vleak = vl, gleak = gl, cm_t = cm \<rparr> \<rparr>)
      })"

text \<open>\<^verbatim>\<open>build(input_shape)\<close>: the input size is the last dimension of the input shape.\<close>

definition build :: "cell \<Rightarrow> nat list \<Rightarrow> samples \<Rightarrow> cell option" where
  "build c input_shape smp =
     (if input_shape = [] then None
      else do {
        c' \<leftarrow> init_variables (c\<lparr> input_size := int (last input_shape) \<rparr>) smp;
        Some (c'\<lparr> built := True \<rparr>)
      })"

text \<open>
  \<^verbatim>\<open>_map_weights_and_biases\<close>: the input weights and biases are created on the first
  call and kept; the result is the mapped input (or an error) and the cell afterwards.
  The created variables hold ones and zeros once the call that created them has
  returned; when that call raises they stay uninitialised in the code, which the cell
  component here does not show.
\<close>

definition create_input_weights :: "cell \<Rightarrow> cell option" where
  "create_input_weights c =
     (if input_weights c = None
      then (if input_size c < 0 then None
            else Some (c\<lparr> input_weights := Some (tf_fill [nat (input_size c)] 1) \<rparr>))
      else Some c)"

definition create_input_biases :: "cell \<Rightarrow> cell option" where
  "create_input_biases c =
     (if input_biases c = None
      then (if input_size c < 0 then None
            else Some (c\<lparr> input_biases := Some (tf_fill [nat (input_size c)] 0) \<rparr>))
      else Some c)"

definition map_weights_and_biases :: "cell \<Rightarrow> real tensor \<Rightarrow> real tensor option \<times> cell" where
  "map_weights_and_biases c inputs =
     (case create_input_weights c of
        None \<Rightarrow> (None, c)
      | Some c1 \<Rightarrow>
          (case create_input_biases c1 of
             None \<Rightarrow> (None, c1)
           | Some c2 \<Rightarrow>
               (do {
                  w \<leftarrow> input_weights c2;
                  b \<leftarrow> input_biases c2;
                  x \<leftarrow> tf_multiply inputs w;
                  tf_add x b
                }, c2)))"

text \<open>\<^verbatim>\<open>_sigmoid(v_pre, mu, sigma)\<close>\<close>

definition sigmoid :: "real tensor \<Rightarrow> real tensor \<Rightarrow> real tensor \<Rightarrow> real tensor option" where
  "sigmoid v_pre m s =
     do {
       k \<leftarrow> last_dim v_pre;
       v \<leftarrow> tf_reshape v_pre [- 1, int k, 1];
       mues \<leftarrow> tf_subtract v m;
       x \<leftarrow> tf_multiply s mues;
       Some (tf_sigmoid x)
     }"

text \<open>\<^verbatim>\<open>_sigmoid(v_pre, mu, sigma)\<close> on tensors of 32-bit floats: the same code.\<close>

definition sigmoid_float32 ::
  "float32 tensor \<Rightarrow> float32 tensor \<Rightarrow> float32 tensor \<Rightarrow> float32 tensor option" where
  "sigmoid_float32 v_pre m s =
     do {
       k \<leftarrow> last_dim v_pre;
       v \<leftarrow> tf_reshape v_pre [- 1, int k, 1];
       mues \<leftarrow> binop f32_subtract v m;
       x \<leftarrow> binop f32_multiply s mues;
       Some (tf_map f32_sigmoid x)
     }"

text \<open>\<^verbatim>\<open>_sde_solver_diffusion\<close>\<close>

definition sde_solver_diffusion :: "cell \<Rightarrow> real tensor \<Rightarrow> states \<Rightarrow> real" where
  "sde_solver_diffusion c inputs sts = 1"

text \<open>
  The loop of \<^verbatim>\<open>_sde_solver_drift\<close>: \<open>drift_update\<close> is its body and \<open>drift_loop\<close> the
  loop, counting down the iterations that remain.
\<close>

definition drift_update ::
  "variables \<Rightarrow> real tensor \<Rightarrow> real tensor \<Rightarrow> real tensor \<Rightarrow> real tensor option" where
  "drift_update p w_numerator_sensory w_denominator_sensory v_pre =
     do {
       g \<leftarrow> sigmoid v_pre (mu p) (sigma p);
       w_activation \<leftarrow> tf_multiply (W p) g;
       rev_activation \<leftarrow> tf_multiply w_activation (erev p);
       rs \<leftarrow> tf_reduce_sum rev_activation 1;
       w_numerator \<leftarrow> tf_add rs w_numerator_sensory;
       ws \<leftarrow> tf_reduce_sum w_activation 1;
       w_denominator \<leftarrow> tf_add ws w_denominator_sensory;
       cv \<leftarrow> tf_multiply (cm_t p) v_pre;
       gv \<leftarrow> tf_multiply (gleak p) (vleak p);
       n1 \<leftarrow> tf_add cv gv;
       numerator \<leftarrow> tf_add n1 w_numerator;
       d1 \<leftarrow> tf_add (cm_t p) (gleak p);
       denominator \<leftarrow> tf_add d1 w_denominator;
       tf_divide numerator denominator
     }"

fun drift_loop ::
  "variables \<Rightarrow> nat \<Rightarrow> real tensor \<Rightarrow> real tensor \<Rightarrow> real tensor \<Rightarrow> real tensor option" where
  "drift_loop p 0 wn wd v_pre = Some v_pre"
| "drift_loop p (Suc k) wn wd v_pre =
     do { v \<leftarrow> drift_update p wn wd v_pre; drift_loop p k wn wd v }"

text \<open>
  The part of \<^verbatim>\<open>_sde_solver_drift\<close> before its loop: the previous state, and the
  sensory numerator and denominator.
\<close>

definition drift_sensory ::
  "cell \<Rightarrow> real tensor \<Rightarrow> states \<Rightarrow> (real tensor \<times> variables \<times> real tensor \<times> real tensor) option" where
  "drift_sensory c inputs sts =
     do {
       v_pre \<leftarrow> states_getitem0 sts;
       p \<leftarrow> vars c;
       g \<leftarrow> sigmoid inputs (sensory_mu p) (sensory_sigma p);
       sensory_w_activation \<leftarrow> tf_multiply (sensory_W p) g;
       sensory_rev_activation \<leftarrow> tf_multiply sensory_w_activation (sensory_erev p);
       w_numerator_sensory \<leftarrow> tf_reduce_sum sensory_rev_activation 1;
       w_denominator_sensory \<leftarrow> tf_reduce_sum sensory_w_activation 1;
       Some (v_pre, p, w_numerator_sensory, w_denominator_sensory)
     }"

definition sde_solver_drift :: "cell \<Rightarrow> real tensor \<Rightarrow> states \<Rightarrow> real tensor option" where
  "sde_solver_drift c inputs sts =
     do {
       (v_pre, p, w_numerator_sensory, w_denominator_sensory) \<leftarrow> drift_sensory c inputs sts;
       drift_loop p (sde_solver_unfolds c) w_numerator_sensory w_denominator_sensory v_pre
     }"

text \<open>
  \<^verbatim>\<open>_sde_solver_euler_maruyama\<close>. \<open>euler_maruyama_step\<close> is the body of its loop.
\<close>

definition euler_maruyama_step :: "cell \<Rightarrow> real tensor \<Rightarrow> states \<Rightarrow> states option" where
  "euler_maruyama_step c inputs sts =
     do {
       drift \<leftarrow> sde_solver_drift c inputs sts;
       let diffusion = sde_solver_diffusion c inputs sts;
       a \<leftarrow> tf_multiply drift (scalar (time_step c));
       s \<leftarrow> states_to_tensor sts;
       s1 \<leftarrow> tf_add s a;
       bm \<leftarrow> brownian_motion c;
       b \<leftarrow> tf_multiply (scalar diffusion) bm;
       s2 \<leftarrow> tf_add s1 b;
       s3 \<leftarrow> tf_reshape s2 [py_int (time_step c), int (units c)];
       Some (StateTensor s3)
     }"

fun euler_maruyama_loop :: "cell \<Rightarrow> nat \<Rightarrow> real tensor \<Rightarrow> states \<Rightarrow> states option" where
  "euler_maruyama_loop c 0 inputs sts = Some sts"
| "euler_maruyama_loop c (Suc k) inputs sts =
     do { s \<leftarrow> euler_maruyama_step c inputs sts; euler_maruyama_loop c k inputs s }"

definition sde_solver_euler_maruyama :: "cell \<Rightarrow> real tensor \<Rightarrow> states \<Rightarrow> states option" where
  "sde_solver_euler_maruyama c inputs sts =
     euler_maruyama_loop c (sde_solver_unfolds c) inputs sts"

text \<open>
  \<^verbatim>\<open>call(inputs, states)\<close>: the pair of the output and the next state (or an error), and
  the cell afterwards. The body of the method is modelled as Python runs it; the trace
  cache of \<^verbatim>\<open>@tf.function\<close> is not. For a cell whose calls so far have returned and whose
  fields are only changed by calls the two agree. After a call that raises, the cell
  component is not what the code holds (see \<open>after_calls\<close>), and a private field
  changed between two calls is not seen by an already traced call.
\<close>

definition call :: "cell \<Rightarrow> real tensor \<Rightarrow> states \<Rightarrow> (states \<times> states) option \<times> cell" where
  "call c inputs sts =
     (case map_weights_and_biases c inputs of
        (mapped, c') \<Rightarrow>
          (do {
             x \<leftarrow> mapped;
             next_state \<leftarrow> sde_solver_euler_maruyama c' x sts;
             let output = next_state;
             Some (output, next_state)
           }, c'))"

section \<open>Counting the conductance-balance updates\<close>

text \<open>
  The number of times the body of the drift loop is entered: in one run of the loop, in
  one drift computation, in the outer loop, and in one call. The functions follow the
  control flow of \<open>drift_loop\<close>, \<open>sde_solver_drift\<close>, \<open>euler_maruyama_loop\<close> and
  \<open>call\<close>; an update that raises ends the run.
\<close>

fun drift_loop_count ::
  "variables \<Rightarrow> nat \<Rightarrow> real tensor \<Rightarrow> real tensor \<Rightarrow> real tensor \<Rightarrow> nat" where
  "drift_loop_count p 0 wn wd v_pre = 0"
| "drift_loop_count p (Suc k) wn wd v_pre =
     Suc (case drift_update p wn wd v_pre of
            None \<Rightarrow> 0
          | Some v \<Rightarrow> drift_loop_count p k wn wd v)"

definition sde_solver_drift_count :: "cell \<Rightarrow> real tensor \<Rightarrow> states \<Rightarrow> nat" where
  "sde_solver_drift_count c inputs sts =
     (case drift_sensory c inputs sts of
        None \<Rightarrow> 0
      | Some (v_pre, p, wn, wd) \<Rightarrow> drift_loop_count p (sde_solver_unfolds c) wn wd v_pre)"

fun euler_maruyama_loop_count :: "cell \<Rightarrow> nat \<Rightarrow> real tensor \<Rightarrow> states \<Rightarrow> nat" where
  "euler_maruyama_loop_count c 0 inputs sts = 0"
| "euler_maruyama_loop_count c (Suc k) inputs sts =
     sde_solver_drift_count c inputs sts +
     (case euler_maruyama_step c inputs sts of
        None \<Rightarrow> 0
      | Some s \<Rightarrow> euler_maruyama_loop_count c k inputs s)"

definition call_count :: "cell \<Rightarrow> real tensor \<Rightarrow> states \<Rightarrow> nat" where
  "call_count c inputs sts =
     (case map_weights_and_biases c inputs of
        (None, c') \<Rightarrow> 0
      | (Some x, c') \<Rightarrow> euler_maruyama_loop_count c' (sde_solver_unfolds c') x sts)"

text \<open>
  The cell after a sequence of calls that all return, each with its input and state;
  \<open>None\<close> when one of them raises. What \<^verbatim>\<open>@tf.function\<close> leaves behind after a call that
  raises (variables created in the failed trace stay uninitialised, and later calls raise
  as well) is not modelled: the cell is followed through calls that return only.
\<close>

fun after_calls :: "cell \<Rightarrow> (real tensor \<times> states) list \<Rightarrow> cell option" where
  "after_calls c [] = Some c"
| "after_calls c ((x, s) # rest) =
     (case call c x s of
        (None, c') \<Rightarrow> None
      | (Some r, c') \<Rightarrow> after_calls c' rest)"

text \<open>
  The cell once \<^verbatim>\<open>_map_weights_and_biases\<close> has run: the input weights and biases exist
  (unless their creation raised).
\<close>

definition prepared :: "cell \<Rightarrow> cell" where
  "prepared c =
     (case create_input_weights c of
        None \<Rightarrow> c
      | Some c1 \<Rightarrow> (case create_input_biases c1 of None \<Rightarrow> c1 | Some c2 \<Rightarrow> c2))"

section \<open>Specification-level definitions\<close>

text \<open>
  The definitions of this section follow the words of the specification, not the code;
  the theorems below compare the code with them. A vector of \<open>units\<close> values is the list
  of its entries.
\<close>

text \<open>Shapes: the variables as \<^verbatim>\<open>_init_variables\<close> shapes them, for input size \<open>n\<close> and \<open>u\<close> units.\<close>

definition variables_ok :: "nat \<Rightarrow> nat \<Rightarrow> variables \<Rightarrow> bool" where
  "variables_ok n u p \<longleftrightarrow>
     shape (sensory_mu p) = [n, u] \<and> shape (sensory_sigma p) = [n, u] \<and>
     shape (sensory_W p) = [n, u] \<and> shape (sensory_erev p) = [n, u] \<and>
     shape (mu p) = [u, u] \<and> shape (sigma p) = [u, u] \<and>
     shape (W p) = [u, u] \<and> shape (erev p) = [u, u] \<and>
     shape (vleak p) = [u] \<and>
     (shape (gleak p) = [] \<or> shape (gleak p) = [u]) \<and>
     (shape (cm_t p) = [] \<or> shape (cm_t p) = [u])"

text \<open>
  A batch of \<open>b\<close> input vectors of \<open>n\<close> features; one vector may also come alone. A
  state is a batch of \<open>b\<close> rows of \<open>u\<close> values, alone or as the only component of a tuple.
\<close>

definition valid_inputs :: "nat \<Rightarrow> nat \<Rightarrow> real tensor \<Rightarrow> bool" where
  "valid_inputs b n x \<longleftrightarrow> shape x = [b, n] \<or> (b = 1 \<and> shape x = [n])"

definition valid_states :: "nat \<Rightarrow> nat \<Rightarrow> states \<Rightarrow> bool" where
  "valid_states b u sts \<longleftrightarrow>
     (case sts of
        StateTuple ts \<Rightarrow> (case ts of [t] \<Rightarrow> shape t = [b, u] | _ \<Rightarrow> False)
      | StateTensor t \<Rightarrow> shape t = [b, u])"

text \<open>The shapes of the state tensors: of the components of a tuple, or of the one tensor.\<close>

definition state_shapes :: "states \<Rightarrow> nat list list" where
  "state_shapes sts = (case sts of StateTuple ts \<Rightarrow> map shape ts | StateTensor t \<Rightarrow> [shape t])"

text \<open>
  A built cell for input size \<open>n\<close> and \<open>u\<close> units, whose time step has the integer part
  \<open>b\<close>: the reshape of the outer loop makes the batch size of the state equal to it.
\<close>

definition valid_cell :: "nat \<Rightarrow> nat \<Rightarrow> nat \<Rightarrow> cell \<Rightarrow> bool" where
  "valid_cell b n u c \<longleftrightarrow>
     0 < b \<and> 0 < n \<and> 0 < u \<and> units c = u \<and> input_size c = int n \<and>
     py_int (time_step c) = int b \<and>
     (case vars c of None \<Rightarrow> False | Some p \<Rightarrow> variables_ok n u p) \<and>
     (case brownian_motion c of None \<Rightarrow> False | Some bm \<Rightarrow> shape bm = [u]) \<and>
     (case input_weights c of None \<Rightarrow> True | Some w \<Rightarrow> shape w = [n]) \<and>
     (case input_biases c of None \<Rightarrow> True | Some bi \<Rightarrow> shape bi = [n])"

text \<open>
  A tensor of shape \<open>[]\<close>, \<open>[u]\<close> or \<open>[1, u]\<close> read as a row of \<open>u\<close> values: entry \<open>j\<close> of
  the row it broadcasts to.
\<close>

definition rowlike :: "nat \<Rightarrow> 'a tensor \<Rightarrow> bool" where
  "rowlike u t \<longleftrightarrow> shape t = [] \<or> shape t = [u] \<or> shape t = [1, u]"

definition row :: "'a tensor \<Rightarrow> nat \<Rightarrow> 'a" where
  "row t j = entry t (source_index (shape t) [0, j])"

text \<open>The value for unit \<open>j\<close> of a per-unit parameter held as a scalar or as a vector.\<close>

definition coef :: "real tensor \<Rightarrow> nat \<Rightarrow> real" where
  "coef t j = (if shape t = [] then entry t [] else entry t [j])"

text \<open>The gate between source \<open>i\<close> and unit \<open>j\<close>, for the source values \<open>v\<close>.\<close>

definition spec_gate :: "real tensor \<Rightarrow> real tensor \<Rightarrow> real list \<Rightarrow> nat \<Rightarrow> nat \<Rightarrow> real" where
  "spec_gate m s v i j = nn_sigmoid (entry s [i, j] * (v ! i - entry m [i, j]))"

text \<open>The sensory numerator and denominator of unit \<open>j\<close>: sums over the \<open>n\<close> input features.\<close>

definition spec_sensory_numerator :: "variables \<Rightarrow> nat \<Rightarrow> real list \<Rightarrow> nat \<Rightarrow> real" where
  "spec_sensory_numerator p n x j =
     (\<Sum>k<n. entry (sensory_W p) [k, j] * spec_gate (sensory_mu p) (sensory_sigma p) x k j
              * entry (sensory_erev p) [k, j])"

definition spec_sensory_denominator :: "variables \<Rightarrow> nat \<Rightarrow> real list \<Rightarrow> nat \<Rightarrow> real" where
  "spec_sensory_denominator p n x j =
     (\<Sum>k<n. entry (sensory_W p) [k, j] * spec_gate (sensory_mu p) (sensory_sigma p) x k j)"

text \<open>
  One conductance-balance update of the \<open>u\<close> state values \<open>v\<close>, for given sensory
  numerators \<open>sn\<close> and denominators \<open>sd\<close>.
\<close>

definition spec_conductance_balance ::
  "variables \<Rightarrow> nat \<Rightarrow> (nat \<Rightarrow> real) \<Rightarrow> (nat \<Rightarrow> real) \<Rightarrow> real list \<Rightarrow> real list" where
  "spec_conductance_balance p u sn sd v =
     map (\<lambda>j. (coef (cm_t p) j * v ! j + coef (gleak p) j * entry (vleak p) [j]
                + (\<Sum>i<u. entry (W p) [i, j] * spec_gate (mu p) (sigma p) v i j * entry (erev p) [i, j])
                + sn j)
             / (coef (cm_t p) j + coef (gleak p) j
                + (\<Sum>i<u. entry (W p) [i, j] * spec_gate (mu p) (sigma p) v i j)
                + sd j))
         [0..<u]"

text \<open>
  The drift: the sensory terms are formed once from the input \<open>x\<close>, then the update is
  applied \<open>k\<close> times to the previous state \<open>v\<close>.
\<close>

definition spec_drift :: "variables \<Rightarrow> nat \<Rightarrow> nat \<Rightarrow> nat \<Rightarrow> real list \<Rightarrow> real list \<Rightarrow> real list" where
  "spec_drift p n u k x v =
     (spec_conductance_balance p u (spec_sensory_numerator p n x) (spec_sensory_denominator p n x)
        ^^ k) v"

text \<open>The pure leak update: the conductance balance without synapses.\<close>

definition spec_leak_update :: "variables \<Rightarrow> nat \<Rightarrow> real list \<Rightarrow> real list" where
  "spec_leak_update p u v =
     map (\<lambda>j. (coef (cm_t p) j * v ! j + coef (gleak p) j * entry (vleak p) [j])
             / (coef (cm_t p) j + coef (gleak p) j))
         [0..<u]"

text \<open>
  One outer sub-step for a given noise vector:
  \<^verbatim>\<open>state = state + drift(input, state) * time_step + diffusion(input, state) * noise_vector\<close>,
  then the reshape to \<^verbatim>\<open>[time_step, units]\<close>.
\<close>

definition spec_euler_maruyama_update ::
  "real tensor \<Rightarrow> cell \<Rightarrow> real tensor \<Rightarrow> states \<Rightarrow> states option" where
  "spec_euler_maruyama_update noise c inputs sts =
     do {
       state \<leftarrow> states_to_tensor sts;
       drift \<leftarrow> sde_solver_drift c inputs sts;
       a \<leftarrow> tf_multiply drift (scalar (time_step c));
       s1 \<leftarrow> tf_add state a;
       b \<leftarrow> tf_multiply (scalar (sde_solver_diffusion c inputs sts)) noise;
       s2 \<leftarrow> tf_add s1 b;
       s3 \<leftarrow> tf_reshape s2 [py_int (time_step c), int (units c)];
       Some (StateTensor s3)
     }"

text \<open>
  The deterministic Euler sub-step: \<^verbatim>\<open>state = state + drift * time_step\<close>, then the same
  reshape.
\<close>

definition spec_euler_update :: "cell \<Rightarrow> real tensor \<Rightarrow> states \<Rightarrow> states option" where
  "spec_euler_update c inputs sts =
     do {
       state \<leftarrow> states_to_tensor sts;
       drift \<leftarrow> sde_solver_drift c inputs sts;
       a \<leftarrow> tf_multiply drift (scalar (time_step c));
       s1 \<leftarrow> tf_add state a;
       s3 \<leftarrow> tf_reshape s1 [py_int (time_step c), int (units c)];
       Some (StateTensor s3)
     }"

text \<open>A sub-step repeated \<open>k\<close> times, stopping at the first error.\<close>

definition spec_iterate :: "nat \<Rightarrow> ('a \<Rightarrow> 'a option) \<Rightarrow> 'a \<Rightarrow> 'a option" where
  "spec_iterate k f s = ((\<lambda>r. Option.bind r f) ^^ k) (Some s)"

section \<open>A small cell\<close>

text \<open>A built cell with two input features and two units, for the concrete instances below.\<close>

definition example_variables :: variables where
  "example_variables =
     \<lparr> sensory_mu = Tensor [2, 2] [3 / 10, 1 / 2, 1 / 2, 4 / 5],
       sensory_sigma = Tensor [2, 2] [3, 4, 5, 8],
       sensory_W = Tensor [2, 2] [1 / 100, 1 / 2, 3 / 4, 1],
       sensory_erev = Tensor [2, 2] [1, - 1, - 1, 1],
       mu = Tensor [2, 2] [3 / 10, 2 / 5, 3 / 5, 4 / 5],
       sigma = Tensor [2, 2] [3, 5, 6, 8],
       W = Tensor [2, 2] [1 / 10, 1 / 5, 1 / 2, 1],
       erev = Tensor [2, 2] [- 1, 1, 1, - 1],
       vleak = Tensor [2] [- 1 / 5, 1 / 10],
       gleak = scalar 1,
       cm_t = scalar (1 / 2) \<rparr>"

definition example_cell :: cell where
  "example_cell =
     (init 2)\<lparr> input_size := 2, built := True,
               brownian_motion := Some (Tensor [2] [1 / 10, - 1 / 5]),
               vars := Some example_variables \<rparr>"

definition example_inputs :: "real tensor" where
  "example_inputs = Tensor [1, 2] [1 / 10, 1 / 5]"

definition example_states :: states where
  "example_states = StateTuple [Tensor [1, 2] [0, 0]]"

text \<open>The example cell with all-zero sensory and recurrent weights.\<close>

definition example_zero_weight_variables :: variables where
  "example_zero_weight_variables =
     example_variables\<lparr> sensory_W := tf_fill [2, 2] 0, W := tf_fill [2, 2] 0 \<rparr>"

definition example_zero_weight_cell :: cell where
  "example_zero_weight_cell = example_cell\<lparr> vars := Some example_zero_weight_variables \<rparr>"

text \<open>
  A cell with one input feature, one unit and one sub-step, whose gates are all
  \<open>1 / 2\<close> (the sensitivities are zero), small enough to follow a call by hand.
\<close>

definition tiny_variables :: variables where
  "tiny_variables =
     \<lparr> sensory_mu = Tensor [1, 1] [1 / 2], sensory_sigma = Tensor [1, 1] [0],
       sensory_W = Tensor [1, 1] [1], sensory_erev = Tensor [1, 1] [- 1],
       mu = Tensor [1, 1] [1 / 2], sigma = Tensor [1, 1] [0],
       W = Tensor [1, 1] [1], erev = Tensor [1, 1] [1],
       vleak = Tensor [1] [1 / 10], gleak = scalar 1, cm_t = scalar (1 / 2) \<rparr>"

definition tiny_cell :: cell where
  "tiny_cell =
     (init 1)\<lparr> input_size := 1, built := True, sde_solver_unfolds := 1,
               brownian_motion := Some (Tensor [1] [1 / 10]), vars := Some tiny_variables \<rparr>"

text \<open>Raw samples for \<^verbatim>\<open>build\<close>.\<close>

definition example_samples :: samples where
  "example_samples =
     \<lparr> u_sensory_mu = (\<lambda>k. 1 / 2), u_sensory_sigma = (\<lambda>k. 1 / 2), u_sensory_W = (\<lambda>k. 1 / 2),
       b_sensory_erev = (\<lambda>k. 1),
       u_mu = (\<lambda>k. 1 / 2), u_sigma = (\<lambda>k. 1 / 2), u_W = (\<lambda>k. 1 / 2),
       b_erev = (\<lambda>k. 0),
       z_brownian = (\<lambda>k. 1 / 10),
       u_vleak = (\<lambda>k. 1 / 2), u_gleak = (\<lambda>k. 1 / 2), u_cm = (\<lambda>k. 1 / 2) \<rparr>"

section \<open>Properties of the array runtime and of the cell\<close>

subsection \<open>Indices and tabulated tensors\<close>

lemma ravel_less: "valid_index sh idx \<Longrightarrow> ravel sh idx < prod_list sh"
proof (induction sh idx rule: valid_index.induct)
  case (2 n sh i idx)
  then have "i < n" and r: "ravel sh idx < prod_list sh" by simp_all
  have "i * prod_list sh + ravel sh idx < i * prod_list sh + prod_list sh"
    using r by simp
  also have "\<dots> = Suc i * prod_list sh" by simp
  also have "\<dots> \<le> n * prod_list sh" using \<open>i < n\<close> by (intro mult_le_mono1) simp
  finally show ?case by simp
qed simp_all

lemma unravel_ravel: "valid_index sh idx \<Longrightarrow> unravel sh (ravel sh idx) = idx"
proof (induction sh idx rule: valid_index.induct)
  case (2 n sh i idx)
  then have r: "ravel sh idx < prod_list sh" by (simp add: ravel_less)
  then show ?case using 2 by simp
qed simp_all

lemma valid_unravel: "k < prod_list sh \<Longrightarrow> valid_index sh (unravel sh k)"
proof (induction sh arbitrary: k)
  case (Cons n sh)
  then have pos: "0 < prod_list sh" by (cases "prod_list sh = 0") simp_all
  have "k div prod_list sh < n" using Cons.prems pos
    by (simp add: less_mult_imp_div_less mult.commute)
  then show ?case using Cons pos by simp
qed simp

lemma ravel_unravel: "k < prod_list sh \<Longrightarrow> ravel sh (unravel sh k) = k"
proof (induction sh arbitrary: k)
  case (Cons n sh)
  then have pos: "0 < prod_list sh" by (cases "prod_list sh = 0") simp_all
  then show ?case using Cons by simp
qed simp

lemma entry_tabulate: "valid_index sh idx \<Longrightarrow> entry (tabulate sh f) idx = f idx"
  by (simp add: entry_def tabulate_def ravel_less unravel_ravel)

lemma shape_tabulate [simp]: "shape (tabulate sh f) = sh"
  by (simp add: tabulate_def)

lemma well_shaped_tabulate [simp]: "well_shaped (tabulate sh f)"
  by (simp add: tabulate_def well_shaped_def)

lemma valid_index_Nil [simp]: "valid_index [] idx \<longleftrightarrow> idx = []"
  by (cases idx) simp_all

lemma valid_index_Cons:
  "valid_index (n # sh) idx \<longleftrightarrow> (\<exists>i r. idx = i # r \<and> i < n \<and> valid_index sh r)"
  by (cases idx) simp_all

subsection \<open>Element-wise operations and reductions\<close>

lemma binop_ok:
  "broadcast_shape (shape a) (shape b) = Some rs \<Longrightarrow>
   \<exists>r. binop f a b = Some r \<and> shape r = rs \<and> well_shaped r"
  by (simp add: binop_def)

lemma binop_entry:
  "binop f a b = Some r \<Longrightarrow> valid_index (shape r) idx \<Longrightarrow>
   entry r idx = f (entry a (source_index (shape a) idx)) (entry b (source_index (shape b) idx))"
  by (auto simp: binop_def entry_tabulate split: option.splits)

lemma broadcast_dim_simps [simp]:
  "broadcast_dim n n = Some n" "broadcast_dim (Suc 0) n = Some n" "broadcast_dim n (Suc 0) = Some n"
  by (simp_all add: broadcast_dim_def)

lemma if_one_index [simp]: "i < n \<Longrightarrow> (if n = Suc 0 then 0 else i) = i"
  by auto

lemma entry_tf_map:
  "well_shaped t \<Longrightarrow> valid_index (shape t) idx \<Longrightarrow> entry (tf_map f t) idx = f (entry t idx)"
  by (simp add: entry_def tf_map_def well_shaped_def ravel_less)

lemma reduce_sum_entry:
  "tf_reduce_sum t axis = Some r \<Longrightarrow> valid_index (shape r) idx \<Longrightarrow>
   entry r idx = (\<Sum>k<shape t ! axis. entry t (take axis idx @ k # drop axis idx))"
  by (auto simp: tf_reduce_sum_def entry_tabulate interv_sum_list_conv_sum_set_nat atLeast0LessThan
           split: if_splits)

lemma reduce_sum_ok:
  "axis < length (shape t) \<Longrightarrow>
   \<exists>r. tf_reduce_sum t axis = Some r \<and> shape r = take axis (shape t) @ drop (Suc axis) (shape t)
        \<and> well_shaped r"
  by (simp add: tf_reduce_sum_def)

subsection \<open>The gating function\<close>

lemma sigmoid_entry:
  assumes v: "shape v = [b, n]" and n: "0 < n"
    and m: "shape m = [n, u]" and s: "shape s = [n, u]"
  shows "\<exists>g. sigmoid v m s = Some g \<and> shape g = [b, n, u] \<and> well_shaped g \<and>
     (\<forall>l i j. l < b \<and> i < n \<and> j < u \<longrightarrow>
        entry g [l, i, j] = nn_sigmoid (entry s [i, j] * (entry v [l, i] - entry m [i, j])))"
proof -
  have r: "tf_reshape v [- 1, int n, 1] = Some (Tensor [b, n, 1] (data v))"
    using v n by (simp add: tf_reshape_def)
  obtain d where d: "tf_subtract (Tensor [b, n, 1] (data v)) m = Some d" "shape d = [b, n, u]"
    using binop_ok [of "Tensor [b, n, 1] (data v)" m "[b, n, u]" "(-)"] m
    by (auto simp: tf_subtract_def broadcast_shape_def)
  obtain x where x: "tf_multiply s d = Some x" "shape x = [b, n, u]" "well_shaped x"
    using binop_ok [of s d "[b, n, u]" "(*)"] s d
    by (auto simp: tf_multiply_def broadcast_shape_def)
  have g: "sigmoid v m s = Some (tf_sigmoid x)"
    using v r d x by (simp add: sigmoid_def last_dim_def)
  have "entry (tf_sigmoid x) [l, i, j] = nn_sigmoid (entry s [i, j] * (entry v [l, i] - entry m [i, j]))"
    if "l < b" "i < n" "j < u" for l i j
  proof -
    have "entry (tf_sigmoid x) [l, i, j] = nn_sigmoid (entry x [l, i, j])"
      using x that by (simp add: tf_sigmoid_def entry_tf_map)
    also have "entry x [l, i, j] = entry s [i, j] * entry d [l, i, j]"
      using binop_entry [OF x(1) [unfolded tf_multiply_def], of "[l, i, j]"] x s d that
      by (simp add: source_index_def)
    also have "entry d [l, i, j] = entry (Tensor [b, n, 1] (data v)) [l, i, 0] - entry m [i, j]"
      using binop_entry [OF d(1) [unfolded tf_subtract_def], of "[l, i, j]"] m d that
      by (simp add: source_index_def)
    also have "entry (Tensor [b, n, 1] (data v)) [l, i, 0] = entry v [l, i]"
      using v by (simp add: entry_def)
    finally show ?thesis .
  qed
  then show ?thesis using g x by (auto simp: tf_sigmoid_def tf_map_def well_shaped_def)
qed

subsection \<open>Rows of values\<close>

lemma row_binop:
  assumes "rowlike u a" "rowlike u b"
  shows "\<exists>r. binop f a b = Some r \<and> well_shaped r
     \<and> shape r = (if length (shape a) < length (shape b) then shape b else shape a)
     \<and> (\<forall>j<u. row r j = f (row a j) (row b j))"
proof -
  let ?rs = "if length (shape a) < length (shape b) then shape b else shape a"
  have bs: "broadcast_shape (shape a) (shape b) = Some ?rs"
    using assms by (auto simp: rowlike_def broadcast_shape_def)
  then obtain r where r: "binop f a b = Some r" "shape r = ?rs" "well_shaped r"
    using binop_ok by blast
  have "row r j = f (row a j) (row b j)" if "j < u" for j
  proof -
    have "valid_index (shape r) (source_index (shape r) [0, j])"
      using assms r(2) that by (auto simp: rowlike_def source_index_def)
    from binop_entry [OF r(1) this] show ?thesis
      using assms r(2) that by (auto simp: rowlike_def row_def source_index_def)
  qed
  then show ?thesis using r by auto
qed

lemma row_data: "shape t = [u] \<or> shape t = [1, u] \<Longrightarrow> j < u \<Longrightarrow> row t j = data t ! j"
  by (auto simp: row_def source_index_def entry_def)

lemma row_entry2: "shape t = [1, u] \<Longrightarrow> j < u \<Longrightarrow> entry t [0, j] = data t ! j"
  by (auto simp: entry_def)

lemma row_coef: "shape t = [] \<or> shape t = [u] \<Longrightarrow> j < u \<Longrightarrow> row t j = coef t j"
  by (auto simp: row_def source_index_def coef_def)

lemma sigmoid_rank1: "shape v = [n] \<Longrightarrow> sigmoid v m s = sigmoid (Tensor [1, n] (data v)) m s"
  by (simp add: sigmoid_def last_dim_def tf_reshape_def)

lemma sigmoid_row:
  assumes v: "shape v = [n] \<or> shape v = [1, n]" and n: "0 < n"
    and m: "shape m = [n, u]" and s: "shape s = [n, u]"
  shows "\<exists>g. sigmoid v m s = Some g \<and> shape g = [1, n, u] \<and> well_shaped g \<and>
     (\<forall>i j. i < n \<and> j < u \<longrightarrow> entry g [0, i, j] = spec_gate m s (data v) i j)"
proof -
  have eq: "sigmoid v m s = sigmoid (Tensor [1, n] (data v)) m s"
    using v by (auto simp: sigmoid_rank1) (cases v, simp)
  from sigmoid_entry [of "Tensor [1, n] (data v)" 1 n m u s] n m s
  show ?thesis unfolding eq spec_gate_def
    by (auto simp: entry_def)
qed

subsection \<open>The drift, entry by entry\<close>

lemma synapse_sums:
  assumes v: "shape v = [n] \<or> shape v = [1, n]" and n: "0 < n"
    and m: "shape m = [n, u]" and s: "shape s = [n, u]"
    and w: "shape w = [n, u]" and e: "shape e = [n, u]"
  shows "\<exists>g wa ra rs ws.
     sigmoid v m s = Some g \<and> tf_multiply w g = Some wa \<and> tf_multiply wa e = Some ra \<and>
     tf_reduce_sum ra 1 = Some rs \<and> tf_reduce_sum wa 1 = Some ws \<and>
     shape rs = [1, u] \<and> shape ws = [1, u] \<and> well_shaped rs \<and> well_shaped ws \<and>
     (\<forall>j<u. entry rs [0, j] = (\<Sum>i<n. entry w [i, j] * spec_gate m s (data v) i j * entry e [i, j])) \<and>
     (\<forall>j<u. entry ws [0, j] = (\<Sum>i<n. entry w [i, j] * spec_gate m s (data v) i j))"
proof -
  obtain g where g: "sigmoid v m s = Some g" "shape g = [1, n, u]"
    and ge: "\<And>i j. i < n \<Longrightarrow> j < u \<Longrightarrow> entry g [0, i, j] = spec_gate m s (data v) i j"
    using sigmoid_row [OF v n m s] by blast
  obtain wa where wa: "tf_multiply w g = Some wa" "shape wa = [1, n, u]"
    using binop_ok [of w g "[1, n, u]" "(*)"] w g(2)
    by (auto simp: tf_multiply_def broadcast_shape_def)
  have wae: "entry wa [0, i, j] = entry w [i, j] * spec_gate m s (data v) i j"
    if "i < n" "j < u" for i j
    using binop_entry [OF wa(1) [unfolded tf_multiply_def], of "[0, i, j]"] wa(2) w g(2) that ge
    by (simp add: source_index_def)
  obtain ra where ra: "tf_multiply wa e = Some ra" "shape ra = [1, n, u]"
    using binop_ok [of wa e "[1, n, u]" "(*)"] e wa(2)
    by (auto simp: tf_multiply_def broadcast_shape_def)
  have rae: "entry ra [0, i, j] = entry w [i, j] * spec_gate m s (data v) i j * entry e [i, j]"
    if "i < n" "j < u" for i j
    using binop_entry [OF ra(1) [unfolded tf_multiply_def], of "[0, i, j]"] ra(2) e wa(2) that wae
    by (simp add: source_index_def)
  obtain rs where rs: "tf_reduce_sum ra 1 = Some rs" "shape rs = [1, u]" "well_shaped rs"
    using reduce_sum_ok [of 1 ra] ra(2) by auto
  obtain ws where ws: "tf_reduce_sum wa 1 = Some ws" "shape ws = [1, u]" "well_shaped ws"
    using reduce_sum_ok [of 1 wa] wa(2) by auto
  have rse: "entry rs [0, j] = (\<Sum>i<n. entry w [i, j] * spec_gate m s (data v) i j * entry e [i, j])"
    if "j < u" for j
    using reduce_sum_entry [OF rs(1), of "[0, j]"] rs(2) ra(2) that rae by simp
  have wse: "entry ws [0, j] = (\<Sum>i<n. entry w [i, j] * spec_gate m s (data v) i j)"
    if "j < u" for j
    using reduce_sum_entry [OF ws(1), of "[0, j]"] ws(2) wa(2) that wae by simp
  show ?thesis using g(1) wa(1) ra(1) rs ws rse wse by blast
qed

lemma row_entry: "shape t = [1, u] \<Longrightarrow> j < u \<Longrightarrow> row t j = entry t [0, j]"
  by (simp add: row_def source_index_def)

lemma drift_update_data:
  assumes p: "variables_ok n u p" and u: "0 < u"
    and wn: "shape wn = [1, u]" and wd: "shape wd = [1, u]"
    and v: "shape v = [u] \<or> shape v = [1, u]"
  shows "\<exists>r. drift_update p wn wd v = Some r \<and> shape r = [1, u] \<and> well_shaped r \<and>
     data r = spec_conductance_balance p u (\<lambda>j. data wn ! j) (\<lambda>j. data wd ! j) (data v)"
proof -
  from p have shp: "shape (mu p) = [u, u]" "shape (sigma p) = [u, u]" "shape (W p) = [u, u]"
      "shape (erev p) = [u, u]" "shape (vleak p) = [u]"
    and gl: "shape (gleak p) = [] \<or> shape (gleak p) = [u]"
    and cm: "shape (cm_t p) = [] \<or> shape (cm_t p) = [u]"
    by (simp_all add: variables_ok_def)
  obtain g wa ra rs ws where syn:
      "sigmoid v (mu p) (sigma p) = Some g" "tf_multiply (W p) g = Some wa"
      "tf_multiply wa (erev p) = Some ra"
      "tf_reduce_sum ra 1 = Some rs" "tf_reduce_sum wa 1 = Some ws"
      "shape rs = [1, u]" "shape ws = [1, u]"
    and rse: "\<And>j. j < u \<Longrightarrow> entry rs [0, j] =
        (\<Sum>i<u. entry (W p) [i, j] * spec_gate (mu p) (sigma p) (data v) i j * entry (erev p) [i, j])"
    and wse: "\<And>j. j < u \<Longrightarrow> entry ws [0, j] =
        (\<Sum>i<u. entry (W p) [i, j] * spec_gate (mu p) (sigma p) (data v) i j)"
    using synapse_sums [OF v u shp(1,2,3,4)] by blast
  have rl: "rowlike u rs" "rowlike u ws" "rowlike u wn" "rowlike u wd" "rowlike u v"
      "rowlike u (cm_t p)" "rowlike u (gleak p)" "rowlike u (vleak p)"
    using syn(6,7) wn wd v gl cm shp(5) by (auto simp: rowlike_def)
  obtain wnum where wnum: "tf_add rs wn = Some wnum" "shape wnum = [1, u]"
      and wnume: "\<And>j. j < u \<Longrightarrow> row wnum j = row rs j + row wn j"
    using row_binop [OF rl(1) rl(3), of "(+)"] syn(6) wn by (auto simp: tf_add_def)
  obtain wden where wden: "tf_add ws wd = Some wden" "shape wden = [1, u]"
      and wdene: "\<And>j. j < u \<Longrightarrow> row wden j = row ws j + row wd j"
    using row_binop [OF rl(2) rl(4), of "(+)"] syn(7) wd by (auto simp: tf_add_def)
  obtain cv where cv: "tf_multiply (cm_t p) v = Some cv" "shape cv = shape v"
      and cve: "\<And>j. j < u \<Longrightarrow> row cv j = row (cm_t p) j * row v j"
    using row_binop [OF rl(6) rl(5), of "(*)"] cm v by (auto simp: tf_multiply_def)
  obtain gv where gv: "tf_multiply (gleak p) (vleak p) = Some gv" "shape gv = [u]"
      and gve: "\<And>j. j < u \<Longrightarrow> row gv j = row (gleak p) j * row (vleak p) j"
    using row_binop [OF rl(7) rl(8), of "(*)"] gl shp(5) by (auto simp: tf_multiply_def)
  have rl2: "rowlike u cv" "rowlike u gv" "rowlike u wnum" "rowlike u wden"
    using cv(2) gv(2) wnum(2) wden(2) v by (auto simp: rowlike_def)
  obtain n1 where n1: "tf_add cv gv = Some n1" "shape n1 = shape v"
      and n1e: "\<And>j. j < u \<Longrightarrow> row n1 j = row cv j + row gv j"
    using row_binop [OF rl2(1) rl2(2), of "(+)"] cv(2) gv(2) v by (auto simp: tf_add_def)
  have rl3: "rowlike u n1" using n1(2) v by (auto simp: rowlike_def)
  obtain num where num: "tf_add n1 wnum = Some num" "shape num = [1, u]"
      and nume: "\<And>j. j < u \<Longrightarrow> row num j = row n1 j + row wnum j"
    using row_binop [OF rl3 rl2(3), of "(+)"] n1(2) wnum(2) v by (auto simp: tf_add_def)
  obtain d1 where d1: "tf_add (cm_t p) (gleak p) = Some d1" "shape d1 = [] \<or> shape d1 = [u]"
      and d1e: "\<And>j. j < u \<Longrightarrow> row d1 j = row (cm_t p) j + row (gleak p) j"
    using row_binop [OF rl(6) rl(7), of "(+)"] cm gl by (auto simp: tf_add_def)
  have rl4: "rowlike u d1" using d1(2) by (auto simp: rowlike_def)
  obtain den where den: "tf_add d1 wden = Some den" "shape den = [1, u]"
      and dene: "\<And>j. j < u \<Longrightarrow> row den j = row d1 j + row wden j"
    using row_binop [OF rl4 rl2(4), of "(+)"] d1(2) wden(2) by (auto simp: tf_add_def)
  have rl5: "rowlike u num" "rowlike u den" using num(2) den(2) by (auto simp: rowlike_def)
  obtain q where q: "tf_divide num den = Some q" "shape q = [1, u]" "well_shaped q"
      and qe: "\<And>j. j < u \<Longrightarrow> row q j = row num j / row den j"
    using row_binop [OF rl5, of "(/)"] num(2) den(2) by (auto simp: tf_divide_def)
  have upd: "drift_update p wn wd v = Some q"
    using syn(1-5) wnum(1) wden(1) cv(1) gv(1) n1(1) num(1) d1(1) den(1) q(1)
    by (simp add: drift_update_def)
  have len: "length (data q) = u" using q(2,3) by (simp add: well_shaped_def)
  have "data q ! j = spec_conductance_balance p u (\<lambda>j. data wn ! j) (\<lambda>j. data wd ! j) (data v) ! j"
    if "j < u" for j
  proof -
    have "data q ! j = row q j" using q(2) that by (simp add: row_data)
    also have "\<dots> = (row (cm_t p) j * row v j + row (gleak p) j * row (vleak p) j
                     + (row rs j + row wn j))
                   / (row (cm_t p) j + row (gleak p) j + (row ws j + row wd j))"
      using that by (simp add: qe nume dene n1e d1e cve gve wnume wdene)
    also have "\<dots> = spec_conductance_balance p u (\<lambda>j. data wn ! j) (\<lambda>j. data wd ! j) (data v) ! j"
    proof -
      have a: "row (cm_t p) j = coef (cm_t p) j" "row (gleak p) j = coef (gleak p) j"
        using cm gl that by (simp_all add: row_coef)
      have b: "row v j = data v ! j" "row wn j = data wn ! j" "row wd j = data wd ! j"
        using v wn wd that by (simp_all add: row_data)
      have c: "row (vleak p) j = entry (vleak p) [j]"
        using shp(5) that by (simp add: row_def source_index_def)
      have d: "row rs j = entry rs [0, j]" "row ws j = entry ws [0, j]"
        using syn(6,7) that by (simp_all add: row_entry)
      show ?thesis
        unfolding a b c d using that
        by (simp add: spec_conductance_balance_def rse wse add.assoc)
    qed
    finally show ?thesis .
  qed
  then have "data q = spec_conductance_balance p u (\<lambda>j. data wn ! j) (\<lambda>j. data wd ! j) (data v)"
    using len by (intro nth_equalityI) (simp_all add: spec_conductance_balance_def)
  then show ?thesis using upd q by blast
qed

lemma spec_conductance_balance_cong:
  "(\<And>j. j < u \<Longrightarrow> sn j = sn' j) \<Longrightarrow> (\<And>j. j < u \<Longrightarrow> sd j = sd' j) \<Longrightarrow>
   spec_conductance_balance p u sn sd v = spec_conductance_balance p u sn' sd' v"
  by (simp add: spec_conductance_balance_def)

lemma drift_loop_data:
  assumes p: "variables_ok n u p" and u: "0 < u"
    and wn: "shape wn = [1, u]" and wd: "shape wd = [1, u]"
    and v: "shape v = [u] \<or> shape v = [1, u]"
  shows "\<exists>r. drift_loop p k wn wd v = Some r \<and>
     shape r = (if k = 0 then shape v else [1, u]) \<and>
     data r = (spec_conductance_balance p u (\<lambda>j. data wn ! j) (\<lambda>j. data wd ! j) ^^ k) (data v)"
  using v
proof (induction k arbitrary: v)
  case 0
  then show ?case by simp
next
  case (Suc k)
  obtain q where q: "drift_update p wn wd v = Some q" "shape q = [1, u]"
    "data q = spec_conductance_balance p u (\<lambda>j. data wn ! j) (\<lambda>j. data wd ! j) (data v)"
    using drift_update_data [OF p u wn wd Suc.prems] by blast
  from Suc.IH [of q] q(2) obtain r where r: "drift_loop p k wn wd q = Some r"
    "shape r = (if k = 0 then shape q else [1, u])"
    "data r = (spec_conductance_balance p u (\<lambda>j. data wn ! j) (\<lambda>j. data wd ! j) ^^ k) (data q)"
    by auto
  show ?case using q r by (simp add: funpow_swap1)
qed

lemma drift_sensory_data:
  assumes c: "vars c = Some p" and p: "variables_ok n u p" and n: "0 < n"
    and x: "shape x = [n] \<or> shape x = [1, n]"
    and v: "states_getitem0 sts = Some v"
  shows "\<exists>wn wd. drift_sensory c x sts = Some (v, p, wn, wd) \<and>
     shape wn = [1, u] \<and> shape wd = [1, u] \<and> well_shaped wn \<and> well_shaped wd \<and>
     (\<forall>j<u. data wn ! j = spec_sensory_numerator p n (data x) j) \<and>
     (\<forall>j<u. data wd ! j = spec_sensory_denominator p n (data x) j)"
proof -
  from p have shp: "shape (sensory_mu p) = [n, u]" "shape (sensory_sigma p) = [n, u]"
      "shape (sensory_W p) = [n, u]" "shape (sensory_erev p) = [n, u]"
    by (simp_all add: variables_ok_def)
  obtain g wa ra rs ws where syn:
      "sigmoid x (sensory_mu p) (sensory_sigma p) = Some g" "tf_multiply (sensory_W p) g = Some wa"
      "tf_multiply wa (sensory_erev p) = Some ra"
      "tf_reduce_sum ra 1 = Some rs" "tf_reduce_sum wa 1 = Some ws"
      "shape rs = [1, u]" "shape ws = [1, u]" "well_shaped rs" "well_shaped ws"
    and rse: "\<And>j. j < u \<Longrightarrow> entry rs [0, j] = spec_sensory_numerator p n (data x) j"
    and wse: "\<And>j. j < u \<Longrightarrow> entry ws [0, j] = spec_sensory_denominator p n (data x) j"
    using synapse_sums [OF x n shp]
    unfolding spec_sensory_numerator_def spec_sensory_denominator_def by blast
  have "drift_sensory c x sts = Some (v, p, rs, ws)"
    using c v syn(1-5) by (simp add: drift_sensory_def)
  then show ?thesis using syn(6-9) rse wse by (auto simp: row_entry2 [symmetric])
qed

lemma sde_solver_drift_data:
  assumes c: "vars c = Some p" and p: "variables_ok n u p" and n: "0 < n" and u: "0 < u"
    and x: "shape x = [n] \<or> shape x = [1, n]"
    and v: "states_getitem0 sts = Some v" "shape v = [u] \<or> shape v = [1, u]"
  shows "\<exists>r. sde_solver_drift c x sts = Some r \<and>
     shape r = (if sde_solver_unfolds c = 0 then shape v else [1, u]) \<and>
     data r = spec_drift p n u (sde_solver_unfolds c) (data x) (data v)"
proof -
  obtain wn wd where s: "drift_sensory c x sts = Some (v, p, wn, wd)"
      "shape wn = [1, u]" "shape wd = [1, u]"
    and wne: "\<And>j. j < u \<Longrightarrow> data wn ! j = spec_sensory_numerator p n (data x) j"
    and wde: "\<And>j. j < u \<Longrightarrow> data wd ! j = spec_sensory_denominator p n (data x) j"
    using drift_sensory_data [OF c p n x v(1)] by blast
  have eq: "spec_conductance_balance p u (\<lambda>j. data wn ! j) (\<lambda>j. data wd ! j)
      = spec_conductance_balance p u (spec_sensory_numerator p n (data x))
          (spec_sensory_denominator p n (data x))"
    by (rule ext, rule spec_conductance_balance_cong) (simp_all add: wne wde)
  from drift_loop_data [OF p u s(2,3) v(2), of "sde_solver_unfolds c"]
  show ?thesis using s(1) by (auto simp: sde_solver_drift_def spec_drift_def eq)
qed

subsection \<open>The cell across calls\<close>

lemma snd_map_weights_and_biases: "snd (map_weights_and_biases c x) = prepared c"
  by (simp add: map_weights_and_biases_def prepared_def split: option.splits)

lemma snd_call: "snd (call c x sts) = prepared c"
  using snd_map_weights_and_biases [of c x]
  by (cases "map_weights_and_biases c x") (simp add: call_def)

lemma map_weights_and_biases_prepared:
  "map_weights_and_biases (prepared c) x = map_weights_and_biases c x"
  by (auto simp: map_weights_and_biases_def prepared_def create_input_weights_def
        create_input_biases_def split: option.splits if_splits)

lemma call_prepared: "call (prepared c) x sts = call c x sts"
  by (simp add: call_def map_weights_and_biases_prepared)

lemma prepared_idem: "prepared (prepared c) = prepared c"
  using snd_map_weights_and_biases [of "prepared c" undefined] snd_map_weights_and_biases [of c undefined]
  by (simp add: map_weights_and_biases_prepared)

lemma after_calls_cases:
  "after_calls c calls = Some c' \<Longrightarrow> c' = (if calls = [] then c else prepared c)"
proof (induction calls arbitrary: c)
  case Nil
  then show ?case by simp
next
  case (Cons a calls)
  obtain x s where a: "a = (x, s)" by (cases a)
  obtain r where r: "call c x s = (Some r, prepared c)"
      and rest: "after_calls (prepared c) calls = Some c'"
    using Cons.prems snd_call [of c x s]
    by (cases "call c x s") (auto simp: a split: option.splits)
  show ?case using Cons.IH [OF rest] by (simp add: prepared_idem)
qed

lemma call_after_calls:
  "after_calls c calls = Some c' \<Longrightarrow> fst (call c' x sts) = fst (call c x sts)"
  by (auto dest!: after_calls_cases simp: call_prepared)

subsection \<open>Equal tensors and zero tensors\<close>

lemma tabulate_cong:
  "(\<And>idx. valid_index sh idx \<Longrightarrow> f idx = g idx) \<Longrightarrow> tabulate sh f = tabulate sh g"
  by (simp add: tabulate_def valid_unravel)

lemma tabulate_entry: "well_shaped t \<Longrightarrow> tabulate (shape t) (entry t) = t"
  by (cases t) (auto simp: tabulate_def entry_def well_shaped_def ravel_unravel intro: nth_equalityI)

lemma tensor_eqI:
  assumes "well_shaped a" "well_shaped b" "shape a = shape b"
    and "\<And>idx. valid_index (shape a) idx \<Longrightarrow> entry a idx = entry b idx"
  shows "a = b"
proof -
  have "tabulate (shape a) (entry a) = tabulate (shape b) (entry b)"
    using assms(3,4) by (auto intro: tabulate_cong)
  then show ?thesis using assms(1,2) by (simp add: tabulate_entry)
qed

lemma well_shaped_fill [simp]: "well_shaped (tf_fill sh x)"
  by (simp add: tf_fill_def well_shaped_def)

lemma shape_fill [simp]: "shape (tf_fill sh x) = sh"
  by (simp add: tf_fill_def)

lemma entry_fill: "valid_index sh idx \<Longrightarrow> entry (tf_fill sh x) idx = x"
  by (simp add: entry_def tf_fill_def ravel_less)

lemma scalar_times_zeros:
  "tf_multiply (scalar a) (tf_fill [u] 0) = Some (tf_fill [u] 0)"
proof -
  obtain r where r: "tf_multiply (scalar a) (tf_fill [u] 0) = Some r" "shape r = [u]" "well_shaped r"
    using binop_ok [of "scalar a" "tf_fill [u] 0" "[u]" "(*)"]
    by (auto simp: tf_multiply_def broadcast_shape_def scalar_def)
  have "r = tf_fill [u] 0"
  proof (rule tensor_eqI)
    fix idx assume "valid_index (shape r) idx"
    then obtain j where j: "idx = [j]" "j < u" using r(2) by (auto simp: valid_index_Cons)
    show "entry r idx = entry (tf_fill [u] 0) idx"
      using binop_entry [OF r(1) [unfolded tf_multiply_def], of idx] r(2) j
      by (simp add: source_index_def entry_fill)
  qed (use r in simp_all)
  then show ?thesis using r(1) by simp
qed

lemma add_zeros:
  assumes t: "well_shaped t" and sh: "shape t = [b, u] \<or> shape t = [a, b, u]"
  shows "tf_add t (tf_fill [u] 0) = Some t"
proof -
  obtain r where r: "tf_add t (tf_fill [u] 0) = Some r" "shape r = shape t" "well_shaped r"
    using binop_ok [of t "tf_fill [u] 0" "shape t" "(+)"] sh
    by (auto simp: tf_add_def broadcast_shape_def)
  have "r = t"
  proof (rule tensor_eqI)
    fix idx assume v: "valid_index (shape r) idx"
    show "entry r idx = entry t idx"
      using binop_entry [OF r(1) [unfolded tf_add_def], of idx] r(2) v sh
      by (auto simp: source_index_def entry_fill valid_index_Cons)
  qed (use r t in simp_all)
  then show ?thesis using r(1) by simp
qed

lemma euler_maruyama_step_spec:
  "euler_maruyama_step c x sts =
     (case brownian_motion c of None \<Rightarrow> None | Some bm \<Rightarrow> spec_euler_maruyama_update bm c x sts)"
  by (auto simp: euler_maruyama_step_def spec_euler_maruyama_update_def
           split: option.splits Option.bind_splits)


subsection \<open>Zero weights\<close>

lemma zero_sensory:
  assumes "sensory_W p = tf_fill [n, u] 0" "j < u"
  shows "spec_sensory_numerator p n x j = 0" "spec_sensory_denominator p n x j = 0"
  using assms by (simp_all add: spec_sensory_numerator_def spec_sensory_denominator_def entry_fill)

lemma zero_weights_balance:
  assumes "W p = tf_fill [u, u] 0" and "\<And>j. j < u \<Longrightarrow> sn j = 0" and "\<And>j. j < u \<Longrightarrow> sd j = 0"
  shows "spec_conductance_balance p u sn sd v = spec_leak_update p u v"
  using assms by (simp add: spec_conductance_balance_def spec_leak_update_def entry_fill)

lemma zeros_eq:
  assumes "well_shaped t" "shape t = [1, u]" "\<And>j. j < u \<Longrightarrow> data t ! j = 0"
  shows "t = tf_fill [1, u] 0"
proof (rule tensor_eqI)
  fix idx assume "valid_index (shape t) idx"
  then obtain j where "idx = [0, j]" "j < u" using assms(2) by (auto simp: valid_index_Cons)
  then show "entry t idx = entry (tf_fill [1, u] 0) idx"
    using assms(2,3) by (simp add: entry_def tf_fill_def)
qed (use assms in simp_all)

lemma zero_weights_drift:
  assumes c: "vars c = Some p" and p: "variables_ok n u p" and n: "0 < n" and u: "0 < u"
    and zs: "sensory_W p = tf_fill [n, u] 0" and zw: "W p = tf_fill [u, u] 0"
    and x: "shape x = [n] \<or> shape x = [1, n]"
    and v: "states_getitem0 sts = Some v" "shape v = [u] \<or> shape v = [1, u]"
  shows "drift_sensory c x sts = Some (v, p, tf_fill [1, u] 0, tf_fill [1, u] 0)"
    and "\<And>w. shape w = [u] \<or> shape w = [1, u] \<Longrightarrow>
      \<exists>q. drift_update p (tf_fill [1, u] 0) (tf_fill [1, u] 0) w = Some q \<and> shape q = [1, u] \<and>
          data q = spec_leak_update p u (data w)"
    and "\<exists>r. sde_solver_drift c x sts = Some r \<and>
          data r = (spec_leak_update p u ^^ sde_solver_unfolds c) (data v)"
proof -
  obtain wn wd where s: "drift_sensory c x sts = Some (v, p, wn, wd)"
      "shape wn = [1, u]" "shape wd = [1, u]" "well_shaped wn" "well_shaped wd"
    and wne: "\<And>j. j < u \<Longrightarrow> data wn ! j = spec_sensory_numerator p n (data x) j"
    and wde: "\<And>j. j < u \<Longrightarrow> data wd ! j = spec_sensory_denominator p n (data x) j"
    using drift_sensory_data [OF c p n x v(1)] by blast
  have "wn = tf_fill [1, u] 0"
    by (rule zeros_eq [OF s(4) s(2)]) (simp add: wne zero_sensory [OF zs])
  moreover have "wd = tf_fill [1, u] 0"
    by (rule zeros_eq [OF s(5) s(3)]) (simp add: wde zero_sensory [OF zs])
  ultimately
  show ds: "drift_sensory c x sts = Some (v, p, tf_fill [1, u] 0, tf_fill [1, u] 0)"
    using s(1) by simp
  have bal: "spec_conductance_balance p u (\<lambda>j. data (tf_fill [1, u] (0::real)) ! j)
      (\<lambda>j. data (tf_fill [1, u] (0::real)) ! j) = spec_leak_update p u"
    by (rule ext, rule zero_weights_balance [OF zw]) (simp_all add: tf_fill_def)
  show "\<exists>q. drift_update p (tf_fill [1, u] 0) (tf_fill [1, u] 0) w = Some q \<and> shape q = [1, u] \<and>
          data q = spec_leak_update p u (data w)" if "shape w = [u] \<or> shape w = [1, u]" for w
    using drift_update_data [OF p u _ _ that, of "tf_fill [1, u] 0" "tf_fill [1, u] 0"]
    unfolding bal by auto
  from drift_loop_data [OF p u _ _ v(2), of "tf_fill [1, u] 0" "tf_fill [1, u] 0" "sde_solver_unfolds c"]
  show "\<exists>r. sde_solver_drift c x sts = Some r \<and>
          data r = (spec_leak_update p u ^^ sde_solver_unfolds c) (data v)"
    unfolding bal using ds by (auto simp: sde_solver_drift_def)
qed

subsection \<open>The loops and the number of updates\<close>

lemma spec_iterate_0 [simp]: "spec_iterate 0 f s = Some s"
  by (simp add: spec_iterate_def)

lemma funpow_bind_None: "((\<lambda>r. Option.bind r (f :: 'a \<Rightarrow> 'a option)) ^^ k) None = None"
  by (induction k) simp_all

lemma spec_iterate_Suc:
  "spec_iterate (Suc k) f s = (case f s of None \<Rightarrow> None | Some s' \<Rightarrow> spec_iterate k f s')"
  by (simp del: funpow.simps add: spec_iterate_def funpow_Suc_right funpow_bind_None
        split: option.splits)

lemma euler_maruyama_loop_iterate:
  "euler_maruyama_loop c k x sts = spec_iterate k (euler_maruyama_step c x) sts"
  by (induction k arbitrary: sts) (auto simp: spec_iterate_Suc split: option.splits)

lemma drift_loop_count_ok:
  "drift_loop p k wn wd v \<noteq> None \<Longrightarrow> drift_loop_count p k wn wd v = k"
  by (induction k arbitrary: v) (auto split: option.splits Option.bind_splits)

lemma sde_solver_drift_count_ok:
  "sde_solver_drift c x sts \<noteq> None \<Longrightarrow> sde_solver_drift_count c x sts = sde_solver_unfolds c"
  by (auto simp: sde_solver_drift_def sde_solver_drift_count_def drift_loop_count_ok
        split: option.splits Option.bind_splits)

lemma euler_maruyama_step_drift:
  "euler_maruyama_step c x sts \<noteq> None \<Longrightarrow> sde_solver_drift c x sts \<noteq> None"
  by (auto simp: euler_maruyama_step_def split: Option.bind_splits)

lemma euler_maruyama_loop_count_ok:
  "euler_maruyama_loop c k x sts \<noteq> None \<Longrightarrow>
   euler_maruyama_loop_count c k x sts = k * sde_solver_unfolds c"
proof (induction k arbitrary: sts)
  case 0
  then show ?case by simp
next
  case (Suc k)
  then obtain s where s: "euler_maruyama_step c x sts = Some s" "euler_maruyama_loop c k x s \<noteq> None"
    by (auto split: Option.bind_splits)
  have "sde_solver_drift_count c x sts = sde_solver_unfolds c"
    using s(1) by (intro sde_solver_drift_count_ok euler_maruyama_step_drift) simp
  then show ?case using s Suc.IH [OF s(2)] by simp
qed

lemma prepared_fields:
  "units (prepared c) = units c" "input_size (prepared c) = input_size c"
  "time_step (prepared c) = time_step c" "sde_solver_unfolds (prepared c) = sde_solver_unfolds c"
  by (auto simp: prepared_def create_input_weights_def create_input_biases_def
           split: option.splits if_splits)

lemma call_count_ok:
  assumes "fst (call c x sts) \<noteq> None"
  shows "call_count c x sts = (sde_solver_unfolds c)\<^sup>2"
proof -
  obtain m c' where m: "map_weights_and_biases c x = (m, c')" by (cases "map_weights_and_biases c x")
  have c': "c' = prepared c" using snd_map_weights_and_biases [of c x] m by simp
  from assms m obtain x' where x': "m = Some x'"
      "euler_maruyama_loop c' (sde_solver_unfolds c') x' sts \<noteq> None"
    by (auto simp: call_def sde_solver_euler_maruyama_def split: Option.bind_splits)
  show ?thesis
    using m x' euler_maruyama_loop_count_ok [OF x'(2)] c'
    by (simp add: call_count_def power2_eq_square prepared_fields)
qed

subsection \<open>Bounds, frame and build\<close>

lemma nn_sigmoid_bounds: "0 < nn_sigmoid x" "nn_sigmoid x < 1"
  by (simp_all add: nn_sigmoid_def add_pos_pos)

lemma prepared_frame:
  "vars (prepared c) = vars c" "brownian_motion (prepared c) = brownian_motion c"
  "input_weights c = Some w \<Longrightarrow> input_weights (prepared c) = Some w"
  "input_biases c = Some b \<Longrightarrow> input_biases (prepared c) = Some b"
  by (auto simp: prepared_def create_input_weights_def create_input_biases_def
           split: option.splits if_splits)

lemma prepared_created:
  "0 \<le> input_size c \<Longrightarrow>
   input_weights (prepared c) =
     Some (case input_weights c of None \<Rightarrow> tf_fill [nat (input_size c)] 1 | Some w \<Rightarrow> w) \<and>
   input_biases (prepared c) =
     Some (case input_biases c of None \<Rightarrow> tf_fill [nat (input_size c)] 0 | Some b \<Rightarrow> b)"
  by (auto simp: prepared_def create_input_weights_def create_input_biases_def
           split: option.splits if_splits)

lemma build_brownian:
  "build c0 input_shape smp = Some c \<Longrightarrow>
   brownian_motion c = Some (random_normal [units c0] 0 (sqrt (time_step c0)) (z_brownian smp)) \<and>
   0 \<le> input_size c \<and> vars c \<noteq> None"
  by (auto simp: build_def init_variables_def Let_def split: if_splits Option.bind_splits)

lemma build_init:
  assumes "input_shape \<noteq> []"
  shows "\<exists>c. build (init u) input_shape smp = Some c \<and>
     (0 < u \<and> 0 < last input_shape \<longrightarrow> valid_cell 1 (last input_shape) u c)"
  using assms
  by (simp add: build_def init_variables_def init_def valid_cell_def variables_ok_def
        random_uniform_def random_normal_def random_erev_def scalar_def py_int_def Let_def)

subsection \<open>Shapes for a batch\<close>

lemma sigmoid_shape:
  assumes v: "shape v = [b, n] \<or> (b = 1 \<and> shape v = [n])" and n: "0 < n"
    and m: "shape m = [n, u]" and s: "shape s = [n, u]"
  shows "\<exists>g. sigmoid v m s = Some g \<and> shape g = [b, n, u]"
proof (cases "shape v = [b, n]")
  case True
  then show ?thesis using sigmoid_entry [OF True n m s] by blast
next
  case False
  then have "b = 1" "shape v = [n]" using v by auto
  then show ?thesis using sigmoid_row [of v n m u s] n m s by auto
qed

lemma synapse_shape:
  assumes v: "shape v = [b, n] \<or> (b = 1 \<and> shape v = [n])" and n: "0 < n"
    and m: "shape m = [n, u]" and s: "shape s = [n, u]"
    and w: "shape w = [n, u]" and e: "shape e = [n, u]"
  shows "\<exists>g wa ra rs ws.
     sigmoid v m s = Some g \<and> tf_multiply w g = Some wa \<and> tf_multiply wa e = Some ra \<and>
     tf_reduce_sum ra 1 = Some rs \<and> tf_reduce_sum wa 1 = Some ws \<and>
     shape rs = [b, u] \<and> shape ws = [b, u]"
proof -
  obtain g where g: "sigmoid v m s = Some g" "shape g = [b, n, u]"
    using sigmoid_shape [OF v n m s] by blast
  obtain wa where wa: "tf_multiply w g = Some wa" "shape wa = [b, n, u]"
    using binop_ok [of w g "[b, n, u]" "(*)"] w g(2)
    by (auto simp: tf_multiply_def broadcast_shape_def)
  obtain ra where ra: "tf_multiply wa e = Some ra" "shape ra = [b, n, u]"
    using binop_ok [of wa e "[b, n, u]" "(*)"] e wa(2)
    by (auto simp: tf_multiply_def broadcast_shape_def)
  obtain rs where rs: "tf_reduce_sum ra 1 = Some rs" "shape rs = [b, u]"
    using reduce_sum_ok [of 1 ra] ra(2) by auto
  obtain ws where ws: "tf_reduce_sum wa 1 = Some ws" "shape ws = [b, u]"
    using reduce_sum_ok [of 1 wa] wa(2) by auto
  show ?thesis using g(1) wa(1) ra(1) rs ws by blast
qed

lemma drift_update_shape:
  assumes p: "variables_ok n u p" and u: "0 < u"
    and wn: "shape wn = [b, u]" and wd: "shape wd = [b, u]"
    and v: "shape v = [u] \<or> shape v = [b, u]"
  shows "\<exists>r. drift_update p wn wd v = Some r \<and> shape r = [b, u]"
proof -
  from p have shp: "shape (mu p) = [u, u]" "shape (sigma p) = [u, u]" "shape (W p) = [u, u]"
      "shape (erev p) = [u, u]" "shape (vleak p) = [u]"
    and gl: "shape (gleak p) = [] \<or> shape (gleak p) = [u]"
    and cm: "shape (cm_t p) = [] \<or> shape (cm_t p) = [u]"
    by (simp_all add: variables_ok_def)
  define b' where "b' = (if shape v = [b, u] then b else 1)"
  have v': "shape v = [b', u] \<or> (b' = 1 \<and> shape v = [u])" and b': "b' = b \<or> b' = 1"
    using v by (auto simp: b'_def)
  obtain g wa ra rs ws where syn:
      "sigmoid v (mu p) (sigma p) = Some g" "tf_multiply (W p) g = Some wa"
      "tf_multiply wa (erev p) = Some ra"
      "tf_reduce_sum ra 1 = Some rs" "tf_reduce_sum wa 1 = Some ws"
      "shape rs = [b', u]" "shape ws = [b', u]"
    using synapse_shape [OF v' u shp(1,2,3,4)] by blast
  obtain wnum where wnum: "tf_add rs wn = Some wnum" "shape wnum = [b, u]"
    using binop_ok [of rs wn "[b, u]" "(+)"] syn(6) wn b'
    by (auto simp: tf_add_def broadcast_shape_def)
  obtain wden where wden: "tf_add ws wd = Some wden" "shape wden = [b, u]"
    using binop_ok [of ws wd "[b, u]" "(+)"] syn(7) wd b'
    by (auto simp: tf_add_def broadcast_shape_def)
  obtain cv where cv: "tf_multiply (cm_t p) v = Some cv" "shape cv = shape v"
    using binop_ok [of "cm_t p" v "shape v" "(*)"] cm v
    by (auto simp: tf_multiply_def broadcast_shape_def)
  obtain gv where gv: "tf_multiply (gleak p) (vleak p) = Some gv" "shape gv = [u]"
    using binop_ok [of "gleak p" "vleak p" "[u]" "(*)"] gl shp(5)
    by (auto simp: tf_multiply_def broadcast_shape_def)
  obtain n1 where n1: "tf_add cv gv = Some n1" "shape n1 = shape v"
    using binop_ok [of cv gv "shape v" "(+)"] cv(2) gv(2) v
    by (auto simp: tf_add_def broadcast_shape_def)
  obtain num where num: "tf_add n1 wnum = Some num" "shape num = [b, u]"
    using binop_ok [of n1 wnum "[b, u]" "(+)"] n1(2) wnum(2) v
    by (auto simp: tf_add_def broadcast_shape_def)
  obtain d1 where d1: "tf_add (cm_t p) (gleak p) = Some d1" "shape d1 = [] \<or> shape d1 = [u]"
    using binop_ok [of "cm_t p" "gleak p" _ "(+)"] cm gl
    by (auto simp: tf_add_def broadcast_shape_def)
  obtain den where den: "tf_add d1 wden = Some den" "shape den = [b, u]"
    using binop_ok [of d1 wden "[b, u]" "(+)"] d1(2) wden(2)
    by (auto simp: tf_add_def broadcast_shape_def)
  obtain q where q: "tf_divide num den = Some q" "shape q = [b, u]"
    using binop_ok [of num den "[b, u]" "(/)"] num(2) den(2)
    by (auto simp: tf_divide_def broadcast_shape_def)
  have "drift_update p wn wd v = Some q"
    using syn(1-5) wnum(1) wden(1) cv(1) gv(1) n1(1) num(1) d1(1) den(1) q(1)
    by (simp add: drift_update_def)
  then show ?thesis using q(2) by blast
qed

lemma drift_loop_shape:
  assumes p: "variables_ok n u p" and u: "0 < u"
    and wn: "shape wn = [b, u]" and wd: "shape wd = [b, u]"
  shows "shape v = [u] \<or> shape v = [b, u] \<Longrightarrow>
    \<exists>r. drift_loop p k wn wd v = Some r \<and> (shape r = [u] \<or> shape r = [b, u])"
proof (induction k arbitrary: v)
  case 0
  then show ?case by simp
next
  case (Suc k)
  obtain q where q: "drift_update p wn wd v = Some q" "shape q = [b, u]"
    using drift_update_shape [OF p u wn wd Suc.prems] by blast
  from Suc.IH [of q] q show ?case by auto
qed

lemma sde_solver_drift_shape:
  assumes c: "vars c = Some p" and p: "variables_ok n u p" and n: "0 < n" and u: "0 < u"
    and x: "valid_inputs b n x"
    and v: "states_getitem0 sts = Some v" "shape v = [u] \<or> shape v = [b, u]"
  shows "\<exists>r. sde_solver_drift c x sts = Some r \<and> (shape r = [u] \<or> shape r = [b, u])"
proof -
  from p have shp: "shape (sensory_mu p) = [n, u]" "shape (sensory_sigma p) = [n, u]"
      "shape (sensory_W p) = [n, u]" "shape (sensory_erev p) = [n, u]"
    by (simp_all add: variables_ok_def)
  obtain g wa ra rs ws where syn:
      "sigmoid x (sensory_mu p) (sensory_sigma p) = Some g" "tf_multiply (sensory_W p) g = Some wa"
      "tf_multiply wa (sensory_erev p) = Some ra"
      "tf_reduce_sum ra 1 = Some rs" "tf_reduce_sum wa 1 = Some ws"
      "shape rs = [b, u]" "shape ws = [b, u]"
    using synapse_shape [OF x [unfolded valid_inputs_def] n shp] by blast
  have ds: "drift_sensory c x sts = Some (v, p, rs, ws)"
    using c v(1) syn(1-5) by (simp add: drift_sensory_def)
  from drift_loop_shape [OF p u syn(6,7) v(2), of "sde_solver_unfolds c"] ds
  show ?thesis by (auto simp: sde_solver_drift_def)
qed

lemma states_getitem0_valid:
  "valid_states b u sts \<Longrightarrow> 0 < b \<Longrightarrow>
   \<exists>v. states_getitem0 sts = Some v \<and> (shape v = [u] \<or> shape v = [b, u])"
  by (auto simp: valid_states_def states_getitem0_def tf_getitem0_def
           split: states.splits list.splits)

lemma states_to_tensor_valid:
  "valid_states b u sts \<Longrightarrow>
   \<exists>s. states_to_tensor sts = Some s \<and> (shape s = [b, u] \<or> shape s = [1, b, u])"
  by (auto simp: valid_states_def states_to_tensor_def tf_stack_def
           split: states.splits list.splits)

lemma euler_maruyama_step_sum:
  assumes c: "valid_cell b n u c" and x: "valid_inputs b' n x"
    and v: "states_getitem0 sts = Some v" "shape v = [u] \<or> shape v = [b', u]"
    and st: "states_to_tensor sts = Some st" "shape st = [b', u] \<or> shape st = [1, b', u]"
  shows "\<exists>s2. shape s2 = shape st \<and>
     euler_maruyama_step c x sts
       = map_option StateTensor (tf_reshape s2 [py_int (time_step c), int u])"
proof -
  from c obtain p bm where cp: "vars c = Some p" "variables_ok n u p" "0 < n" "0 < u"
      "brownian_motion c = Some bm" "shape bm = [u]" "units c = u"
    by (auto simp: valid_cell_def split: option.splits)
  obtain d where d: "sde_solver_drift c x sts = Some d" "shape d = [u] \<or> shape d = [b', u]"
    using sde_solver_drift_shape [OF cp(1,2,3,4) x v] by blast
  obtain a where a: "tf_multiply d (scalar (time_step c)) = Some a" "shape a = shape d"
    using binop_ok [of d "scalar (time_step c)" "shape d" "(*)"] d(2)
    by (auto simp: tf_multiply_def broadcast_shape_def scalar_def)
  obtain s1 where s1: "tf_add st a = Some s1" "shape s1 = shape st"
    using binop_ok [of st a "shape st" "(+)"] d(2) a(2) st(2)
    by (auto simp: tf_add_def broadcast_shape_def)
  obtain z where z: "tf_multiply (scalar (sde_solver_diffusion c x sts)) bm = Some z" "shape z = [u]"
    using binop_ok [of "scalar (sde_solver_diffusion c x sts)" bm "[u]" "(*)"] cp(6)
    by (auto simp: tf_multiply_def broadcast_shape_def scalar_def)
  obtain s2 where s2: "tf_add s1 z = Some s2" "shape s2 = shape st"
    using binop_ok [of s1 z "shape st" "(+)"] s1(2) z(2) st(2)
    by (auto simp: tf_add_def broadcast_shape_def)
  have "euler_maruyama_step c x sts
      = map_option StateTensor (tf_reshape s2 [py_int (time_step c), int u])"
    using d(1) st(1) a(1) s1(1) cp(5,7) z(1) s2(1)
    by (cases "tf_reshape s2 [py_int (time_step c), int u]")
       (simp_all add: euler_maruyama_step_def)
  then show ?thesis using s2(2) by auto
qed

lemma euler_maruyama_step_reshape:
  assumes c: "valid_cell b n u c" and b': "0 < b'"
    and x: "valid_inputs b' n x" and s: "valid_states b' u sts"
  shows "\<exists>s2. (shape s2 = [b', u] \<or> shape s2 = [1, b', u]) \<and>
     euler_maruyama_step c x sts
       = map_option StateTensor (tf_reshape s2 [py_int (time_step c), int u])"
proof -
  obtain v where v: "states_getitem0 sts = Some v" "shape v = [u] \<or> shape v = [b', u]"
    using states_getitem0_valid [OF s b'] by blast
  obtain st where st: "states_to_tensor sts = Some st" "shape st = [b', u] \<or> shape st = [1, b', u]"
    using states_to_tensor_valid [OF s] by blast
  from euler_maruyama_step_sum [OF c x v st] st(2) show ?thesis by auto
qed

lemma euler_maruyama_step_valid:
  assumes c: "valid_cell b n u c" and x: "valid_inputs b n x" and s: "valid_states b u sts"
  shows "\<exists>t. euler_maruyama_step c x sts = Some (StateTensor t) \<and> shape t = [b, u]"
proof -
  have b: "0 < b" "py_int (time_step c) = int b" using c by (simp_all add: valid_cell_def)
  obtain s2 where s2: "shape s2 = [b, u] \<or> shape s2 = [1, b, u]"
      "euler_maruyama_step c x sts
         = map_option StateTensor (tf_reshape s2 [py_int (time_step c), int u])"
    using euler_maruyama_step_reshape [OF c b(1) x s] by blast
  have "tf_reshape s2 [py_int (time_step c), int u] = Some (Tensor [b, u] (data s2))"
    using s2(1) b(2) by (auto simp: tf_reshape_def nat_mult_distrib)
  then show ?thesis using s2(2) by simp
qed

lemma euler_maruyama_step_other_batch:
  assumes c: "valid_cell b n u c" and b': "0 < b'" "b' \<noteq> b"
    and x: "valid_inputs b' n x" and s: "valid_states b' u sts"
  shows "euler_maruyama_step c x sts = None"
proof -
  have b: "py_int (time_step c) = int b" "0 < u" using c by (simp_all add: valid_cell_def)
  obtain s2 where s2: "shape s2 = [b', u] \<or> shape s2 = [1, b', u]"
      "euler_maruyama_step c x sts
         = map_option StateTensor (tf_reshape s2 [py_int (time_step c), int u])"
    using euler_maruyama_step_reshape [OF c b'(1) x s] by blast
  have "tf_reshape s2 [py_int (time_step c), int u] = None"
    using s2(1) b b'(2) by (auto simp: tf_reshape_def nat_mult_distrib)
  then show ?thesis using s2(2) by simp
qed

lemma euler_maruyama_loop_valid:
  assumes c: "valid_cell b n u c" and x: "valid_inputs b n x"
  shows "valid_states b u sts \<Longrightarrow>
    \<exists>ns. euler_maruyama_loop c k x sts = Some ns \<and> valid_states b u ns"
proof (induction k arbitrary: sts)
  case 0
  then show ?case by simp
next
  case (Suc k)
  obtain t where t: "euler_maruyama_step c x sts = Some (StateTensor t)" "shape t = [b, u]"
    using euler_maruyama_step_valid [OF c x Suc.prems] by blast
  have vs: "valid_states b u (StateTensor t)" using t(2) by (simp add: valid_states_def)
  from Suc.IH [OF vs] t(1) show ?case by auto
qed

lemma map_weights_and_biases_result:
  "0 \<le> input_size c \<Longrightarrow>
   map_weights_and_biases c x =
     (do { w \<leftarrow> input_weights (prepared c); b \<leftarrow> input_biases (prepared c);
           y \<leftarrow> tf_multiply x w; tf_add y b }, prepared c)"
  by (auto simp: map_weights_and_biases_def prepared_def create_input_weights_def
        create_input_biases_def split: option.splits if_splits)

lemma map_weights_and_biases_valid:
  assumes c: "valid_cell b n u c" and x: "valid_inputs b' n x"
  shows "\<exists>x'. map_weights_and_biases c x = (Some x', prepared c) \<and> valid_inputs b' n x' \<and>
     valid_cell b n u (prepared c)"
proof -
  have n: "0 \<le> input_size c" "nat (input_size c) = n" using c by (simp_all add: valid_cell_def)
  have v2: "valid_cell b n u (prepared c)"
    using c prepared_created [OF n(1)] n(2)
    by (auto simp: valid_cell_def prepared_frame prepared_fields split: option.splits)
  obtain w bi where wb: "input_weights (prepared c) = Some w" "shape w = [n]"
      "input_biases (prepared c) = Some bi" "shape bi = [n]"
    using v2 prepared_created [OF n(1)] by (auto simp: valid_cell_def split: option.splits)
  obtain y where y: "tf_multiply x w = Some y" "shape y = shape x"
    using binop_ok [of x w "shape x" "(*)"] x wb(2)
    by (auto simp: tf_multiply_def broadcast_shape_def valid_inputs_def)
  obtain z where z: "tf_add y bi = Some z" "shape z = shape x"
    using binop_ok [of y bi "shape x" "(+)"] x wb(4) y(2)
    by (auto simp: tf_add_def broadcast_shape_def valid_inputs_def)
  have "map_weights_and_biases c x = (Some z, prepared c)"
    using map_weights_and_biases_result [of c x] n(1) wb y z by simp
  then show ?thesis using z(2) x v2 by (auto simp: valid_inputs_def)
qed

text \<open>
  The batch size is forced: a state with another batch size than the integer part of
  the time step makes the first sub-step, and so the call, fail.
\<close>

lemma call_other_batch:
  assumes c: "valid_cell b n u c" and b': "0 < b'" "b' \<noteq> b"
    and x: "valid_inputs b' n x" and s: "valid_states b' u sts"
    and k: "0 < sde_solver_unfolds c"
  shows "fst (call c x sts) = None"
proof -
  obtain x' where m: "map_weights_and_biases c x = (Some x', prepared c)" "valid_inputs b' n x'"
      "valid_cell b n u (prepared c)"
    using map_weights_and_biases_valid [OF c x] by blast
  obtain j where j: "sde_solver_unfolds (prepared c) = Suc j"
    using k by (cases "sde_solver_unfolds c") (simp_all add: prepared_fields)
  have "euler_maruyama_step (prepared c) x' sts = None"
    by (rule euler_maruyama_step_other_batch [OF m(3) b' m(2) s])
  then show ?thesis using m(1) j by (simp add: call_def sde_solver_euler_maruyama_def)
qed

lemma call_valid:
  assumes c: "valid_cell b n u c" and x: "valid_inputs b n x" and s: "valid_states b u sts"
  shows "\<exists>ns. call c x sts = (Some (ns, ns), prepared c) \<and> valid_states b u ns \<and>
     valid_cell b n u (prepared c)"
proof -
  obtain x' where m: "map_weights_and_biases c x = (Some x', prepared c)" "valid_inputs b n x'"
      "valid_cell b n u (prepared c)"
    using map_weights_and_biases_valid [OF c x] by blast
  obtain ns where ns: "euler_maruyama_loop (prepared c) (sde_solver_unfolds (prepared c)) x' sts = Some ns"
      "valid_states b u ns"
    using euler_maruyama_loop_valid [OF m(3) m(2) s] by blast
  show ?thesis using m ns by (simp add: call_def sde_solver_euler_maruyama_def)
qed

text \<open>
  A state given as a vector of \<open>u\<close> values in a one-tuple is accepted too, when the
  time step has the integer part 1: the tuple is stacked to shape \<open>[1, u]\<close>.
\<close>

lemma euler_maruyama_step_vector:
  assumes c: "valid_cell 1 n u c" and x: "valid_inputs 1 n x" and t: "shape t = [u]"
  shows "\<exists>t'. euler_maruyama_step c x (StateTuple [t]) = Some (StateTensor t') \<and>
     shape t' = [1, u]"
proof -
  have b: "py_int (time_step c) = 1" using c by (simp add: valid_cell_def)
  have v: "states_getitem0 (StateTuple [t]) = Some t" "shape t = [u] \<or> shape t = [1, u]"
    using t by (simp_all add: states_getitem0_def)
  have st: "states_to_tensor (StateTuple [t]) = Some (Tensor [1, u] (data t))"
      "shape (Tensor [1, u] (data t)) = [1, u] \<or> shape (Tensor [1, u] (data t)) = [1, 1, u]"
    using t by (simp_all add: states_to_tensor_def tf_stack_def)
  obtain s2 where s2: "shape s2 = [1, u]"
      "euler_maruyama_step c x (StateTuple [t])
         = map_option StateTensor (tf_reshape s2 [py_int (time_step c), int u])"
    using euler_maruyama_step_sum [OF c x v st] by auto
  have "tf_reshape s2 [py_int (time_step c), int u] = Some (Tensor [1, u] (data s2))"
    using s2(1) b by (auto simp: tf_reshape_def)
  then show ?thesis using s2(2) by simp
qed

lemma call_vector:
  assumes c: "valid_cell 1 n u c" and x: "valid_inputs 1 n x" and t: "shape t = [u]"
    and k: "0 < sde_solver_unfolds c"
  shows "\<exists>ns. call c x (StateTuple [t]) = (Some (ns, ns), prepared c) \<and> valid_states 1 u ns"
proof -
  obtain x' where m: "map_weights_and_biases c x = (Some x', prepared c)" "valid_inputs 1 n x'"
      "valid_cell 1 n u (prepared c)"
    using map_weights_and_biases_valid [OF c x] by blast
  obtain j where j: "sde_solver_unfolds (prepared c) = Suc j"
    using k by (cases "sde_solver_unfolds c") (simp_all add: prepared_fields)
  obtain t' where t': "euler_maruyama_step (prepared c) x' (StateTuple [t]) = Some (StateTensor t')"
      "shape t' = [1, u]"
    using euler_maruyama_step_vector [OF m(3) m(2) t] by blast
  have "valid_states 1 u (StateTensor t')" using t'(2) by (simp add: valid_states_def)
  then obtain ns where ns: "euler_maruyama_loop (prepared c) j x' (StateTensor t') = Some ns"
      "valid_states 1 u ns"
    using euler_maruyama_loop_valid [OF m(3) m(2)] by blast
  show ?thesis using m(1) j t'(1) ns by (simp add: call_def sde_solver_euler_maruyama_def)
qed

text \<open>The reshape at the end of a sub-step fixes the shape of every state that is returned.\<close>

lemma tf_reshape_shape:
  "tf_reshape t dims = Some r \<Longrightarrow> list_all (\<lambda>d. 0 \<le> d) dims \<Longrightarrow> shape r = map nat dims"
proof -
  assume r: "tf_reshape t dims = Some r" and nn: "list_all (\<lambda>d. 0 \<le> d) dims"
  have m: "map (\<lambda>d. if d = - 1 then k else nat d) dims = map nat dims" for k
    using nn by (induction dims) auto
  from r show ?thesis
    by (auto simp: tf_reshape_def Let_def m split: if_splits)
qed

lemma euler_maruyama_step_shape:
  assumes "euler_maruyama_step c x sts = Some s" and "0 \<le> py_int (time_step c)"
  shows "\<exists>t. s = StateTensor t \<and> shape t = [nat (py_int (time_step c)), units c]"
proof -
  from assms(1) obtain s2 t where t: "tf_reshape s2 [py_int (time_step c), int (units c)] = Some t"
      and s: "s = StateTensor t"
    by (auto simp: euler_maruyama_step_def split: Option.bind_splits)
  from tf_reshape_shape [OF t] assms(2) show ?thesis using s by simp
qed

lemma euler_maruyama_loop_shape:
  assumes "0 \<le> py_int (time_step c)"
  shows "euler_maruyama_loop c (Suc k) x sts = Some ns \<Longrightarrow>
    state_shapes ns = [[nat (py_int (time_step c)), units c]]"
proof (induction k arbitrary: sts)
  case 0
  then have "euler_maruyama_step c x sts = Some ns" by (auto split: Option.bind_splits)
  from euler_maruyama_step_shape [OF this assms] show ?case by (auto simp: state_shapes_def)
next
  case (Suc k)
  then obtain s where "euler_maruyama_loop c (Suc k) x s = Some ns"
    by (auto split: Option.bind_splits)
  then show ?case by (rule Suc.IH)
qed

lemma call_result:
  "fst (call c x sts) = Some (out, ns) \<Longrightarrow>
   \<exists>x'. euler_maruyama_loop (prepared c) (sde_solver_unfolds c) x' sts = Some ns"
  using snd_map_weights_and_biases [of c x]
  by (cases "map_weights_and_biases c x")
     (auto simp: call_def sde_solver_euler_maruyama_def prepared_fields split: Option.bind_splits)

lemma call_shape:
  assumes "fst (call c x sts) = Some (out, ns)"
    and "0 < sde_solver_unfolds c" and "0 \<le> py_int (time_step c)"
  shows "state_shapes ns = [[nat (py_int (time_step c)), units c]]"
proof -
  obtain x' where l: "euler_maruyama_loop (prepared c) (sde_solver_unfolds c) x' sts = Some ns"
    using call_result [OF assms(1)] by blast
  obtain k where k: "sde_solver_unfolds c = Suc k" using assms(2) by (cases "sde_solver_unfolds c") auto
  from euler_maruyama_loop_shape [of "prepared c" k x' sts ns] l k assms(3)
  show ?thesis by (simp add: prepared_fields)
qed

lemma call_no_unfolds:
  assumes "fst (call c x sts) = Some (out, ns)" and "sde_solver_unfolds c = 0"
  shows "ns = sts"
  using call_result [OF assms(1)] assms(2) by simp

lemma zero_noise_step:
  assumes c: "valid_cell b n u c" and x: "valid_inputs b n x" and s: "valid_states b u sts"
    and z: "brownian_motion c = Some (tf_fill [units c] 0)"
  shows "\<exists>t. euler_maruyama_step c x sts = Some t \<and> spec_euler_update c x sts = Some t"
proof -
  from c obtain p where cp: "vars c = Some p" "variables_ok n u p" "0 < n" "0 < u"
      "py_int (time_step c) = int b" "units c = u" "0 < b"
    by (auto simp: valid_cell_def split: option.splits)
  obtain v where v: "states_getitem0 sts = Some v" "shape v = [u] \<or> shape v = [b, u]"
    using states_getitem0_valid [OF s cp(7)] by blast
  obtain d where d: "sde_solver_drift c x sts = Some d" "shape d = [u] \<or> shape d = [b, u]"
    using sde_solver_drift_shape [OF cp(1,2,3,4) x v] by blast
  obtain st where st: "states_to_tensor sts = Some st" "shape st = [b, u] \<or> shape st = [1, b, u]"
    using states_to_tensor_valid [OF s] by blast
  obtain a where a: "tf_multiply d (scalar (time_step c)) = Some a" "shape a = shape d"
    using binop_ok [of d "scalar (time_step c)" "shape d" "(*)"] d(2)
    by (auto simp: tf_multiply_def broadcast_shape_def scalar_def)
  obtain s1 where s1: "tf_add st a = Some s1" "shape s1 = shape st" "well_shaped s1"
    using binop_ok [of st a "shape st" "(+)"] d(2) a(2) st(2)
    by (auto simp: tf_add_def broadcast_shape_def)
  have m: "tf_multiply (scalar (sde_solver_diffusion c x sts)) (tf_fill [u] 0) = Some (tf_fill [u] 0)"
    by (rule scalar_times_zeros)
  have s2: "tf_add s1 (tf_fill [u] 0) = Some s1"
    using add_zeros [OF s1(3), of b u 1] s1(2) st(2) by auto
  have r: "tf_reshape s1 [py_int (time_step c), int (units c)] = Some (Tensor [b, u] (data s1))"
    using s1(2) st(2) cp(5,6) by (auto simp: tf_reshape_def nat_mult_distrib)
  show ?thesis
    using d(1) st(1) a(1) s1(1) z m s2 r cp(6)
    by (simp add: euler_maruyama_step_def spec_euler_update_def)
qed

subsection \<open>The gating function over the floats\<close>

lemma round_half_even_int [simp]: "round_half_even (of_int k) = k"
  by (simp add: round_half_even_def)

lemma round_half_even_nonneg: "0 \<le> x \<Longrightarrow> 0 \<le> round_half_even x"
  by (auto simp: round_half_even_def Let_def)

lemma round_half_even_le: "x \<le> of_int k \<Longrightarrow> round_half_even x \<le> k"
proof -
  assume a: "x \<le> of_int k"
  then have f: "\<lfloor>x\<rfloor> \<le> k" by (simp add: floor_le_iff)
  show ?thesis
  proof (cases "\<lfloor>x\<rfloor> = k")
    case True
    then have "x = of_int k" using a by linarith
    then show ?thesis by simp
  next
    case False
    then have "\<lfloor>x\<rfloor> + 1 \<le> k" using f by simp
    then show ?thesis by (auto simp: round_half_even_def Let_def)
  qed
qed

lemma floor_log2:
  assumes "2 powr of_int k \<le> x" and "x < 2 powr of_int (k + 1)"
  shows "\<lfloor>log 2 x\<rfloor> = k"
proof -
  have x: "0 < x" using assms(1) powr_gt_zero [of 2 "of_int k"] by linarith
  have "of_int k \<le> log 2 x" using assms(1) x by (simp add: le_log_iff)
  moreover have "log 2 x < of_int (k + 1)" using assms(2) x by (simp add: log_less_iff)
  ultimately show ?thesis by (simp add: floor_unique)
qed

lemma f32_round_not_NaN [simp]: "f32_round x \<noteq> NaN"
  by (simp add: f32_round_def Let_def)

lemma f32_max_ge: "1 \<le> f32_max"
  by (simp add: f32_max_def)

lemma f32_round_unit:
  assumes "0 \<le> y" and "y \<le> 1"
  shows "\<exists>r. f32_round y = Finite r \<and> 0 \<le> r \<and> r \<le> 1"
proof (cases "y = 0")
  case True
  then show ?thesis by (simp add: f32_round_def)
next
  case False
  then have y: "0 < y" using assms(1) by simp
  define e where "e = max (\<lfloor>log 2 \<bar>y\<bar>\<rfloor> - 23) (- 149)"
  define q where "q = round_half_even (y / 2 powr of_int e)"
  have "log 2 y \<le> 0" using y assms(2) by simp
  then have "\<lfloor>log 2 \<bar>y\<bar>\<rfloor> \<le> 0" using y by (simp add: floor_le_iff) 
  then have e: "e \<le> 0" by (simp add: e_def)
  have "real_of_int (- e) = real (nat (- e))" using e by simp
  then have p: "(2 :: real) powr of_int (- e) = of_int (2 ^ nat (- e))"
    by (simp only: powr_realpow [of 2, OF zero_less_numeral] of_int_power of_int_numeral)
  have "y / 2 powr of_int e = y * 2 powr of_int (- e)"
    by (simp add: powr_minus divide_inverse)
  also have "\<dots> \<le> 2 powr of_int (- e)" using assms(2) by (simp add: mult_left_le_one_le)
  finally have "y / 2 powr of_int e \<le> of_int (2 ^ nat (- e))" using p by simp
  then have q1: "q \<le> 2 ^ nat (- e)" unfolding q_def by (rule round_half_even_le)
  have q0: "0 \<le> q" unfolding q_def using y by (intro round_half_even_nonneg) simp
  have "real_of_int q \<le> real_of_int (2 ^ nat (- e))" using q1 by linarith
  then have "real_of_int q * 2 powr of_int e \<le> real_of_int (2 ^ nat (- e)) * 2 powr of_int e"
    by (rule mult_right_mono) simp
  also have "\<dots> = 2 powr of_int (- e) * 2 powr of_int e" using p by simp
  also have "\<dots> = 1" by (simp add: powr_add [symmetric])
  finally have r1: "real_of_int q * 2 powr of_int e \<le> 1" .
  have r0: "0 \<le> real_of_int q * 2 powr of_int e" using q0 by simp
  show ?thesis
    using False r0 r1 f32_max_ge
    by (simp add: f32_round_def Let_def e_def [symmetric] q_def [symmetric])
qed

lemma f32_sigmoid_unit:
  "a \<noteq> NaN \<Longrightarrow> \<exists>r. f32_sigmoid a = Finite r \<and> 0 \<le> r \<and> r \<le> 1"
  using f32_round_unit [of "nn_sigmoid x" for x] nn_sigmoid_bounds
  by (cases a) (auto simp: f32_sigmoid_def less_imp_le)

lemma round_half_even_up:
  "of_int k - 1 / 2 < x \<Longrightarrow> x \<le> of_int k \<Longrightarrow> round_half_even x = k"
proof -
  assume a: "of_int k - 1 / 2 < x" "x \<le> of_int k"
  show ?thesis
  proof (cases "x = of_int k")
    case True
    then show ?thesis by simp
  next
    case False
    then have "\<lfloor>x\<rfloor> = k - 1" using a by (intro floor_unique) auto
    then show ?thesis using a by (simp add: round_half_even_def)
  qed
qed

lemma round_half_even_down:
  "of_int k \<le> x \<Longrightarrow> x < of_int k + 1 / 2 \<Longrightarrow> round_half_even x = k"
proof -
  assume a: "of_int k \<le> x" "x < of_int k + 1 / 2"
  then have "\<lfloor>x\<rfloor> = k" by (intro floor_unique) auto
  then show ?thesis using a by (simp add: round_half_even_def)
qed

lemma exp_ge_two_power: "2 ^ n \<le> exp (real n)"
proof -
  have "(2 :: real) \<le> exp 1" using exp_ge_add_one_self [of 1] by simp
  then have "(2 :: real) ^ n \<le> exp 1 ^ n" by (intro power_mono) simp_all
  then show ?thesis by (simp add: exp_of_nat_mult [symmetric])
qed

lemma sigmoid_float32_entry:
  assumes v: "shape v = [n]" and m: "shape m = [n, u]" and s: "shape s = [n, u]"
  shows "\<exists>g. sigmoid_float32 v m s = Some g \<and> shape g = [1, n, u] \<and>
     (\<forall>i j. i < n \<and> j < u \<longrightarrow>
        entry g [0, i, j]
          = f32_sigmoid (f32_multiply (entry s [i, j]) (f32_subtract (entry v [i]) (entry m [i, j]))))"
proof -
  have r: "tf_reshape v [- 1, int n, 1] = Some (Tensor [1, n, 1] (data v))"
    using v by (simp add: tf_reshape_def)
  obtain d where d: "binop f32_subtract (Tensor [1, n, 1] (data v)) m = Some d" "shape d = [1, n, u]"
    using binop_ok [of "Tensor [1, n, 1] (data v)" m "[1, n, u]" f32_subtract] m
    by (auto simp: broadcast_shape_def)
  obtain x where x: "binop f32_multiply s d = Some x" "shape x = [1, n, u]" "well_shaped x"
    using binop_ok [of s d "[1, n, u]" f32_multiply] s d
    by (auto simp: broadcast_shape_def)
  have g: "sigmoid_float32 v m s = Some (tf_map f32_sigmoid x)"
    using v r d x by (simp add: sigmoid_float32_def last_dim_def)
  have "entry (tf_map f32_sigmoid x) [0, i, j]
      = f32_sigmoid (f32_multiply (entry s [i, j]) (f32_subtract (entry v [i]) (entry m [i, j])))"
    if "i < n" "j < u" for i j
  proof -
    have "entry (tf_map f32_sigmoid x) [0, i, j] = f32_sigmoid (entry x [0, i, j])"
      using x that by (simp add: entry_tf_map)
    also have "entry x [0, i, j] = f32_multiply (entry s [i, j]) (entry d [0, i, j])"
      using binop_entry [OF x(1), of "[0, i, j]"] x s d that
      by (simp add: source_index_def)
    also have "entry d [0, i, j]
        = f32_subtract (entry (Tensor [1, n, 1] (data v)) [0, i, 0]) (entry m [i, j])"
      using binop_entry [OF d(1), of "[0, i, j]"] m d that
      by (simp add: source_index_def)
    also have "entry (Tensor [1, n, 1] (data v)) [0, i, 0] = entry v [i]"
      using v by (simp add: entry_def)
    finally show ?thesis .
  qed
  then show ?thesis using g x by (auto simp: tf_map_def)
qed


lemma f32_round_eq:
  assumes "x \<noteq> 0" and "max (\<lfloor>log 2 \<bar>x\<bar>\<rfloor> - 23) (- 149) = e"
    and "round_half_even (x / 2 powr of_int e) = q"
    and "r = of_int q * 2 powr of_int e"
  shows "f32_round x = (if f32_max < r then PosInf else if r < - f32_max then NegInf else Finite r)"
  using assms by (simp only: f32_round_def Let_def if_False)

lemma two_powr_int: "0 \<le> e \<Longrightarrow> (2 :: real) powr of_int e = 2 ^ nat e"
  using powr_realpow [of 2 "nat e"] by simp

lemma two_powr_neg_int: "e \<le> 0 \<Longrightarrow> (2 :: real) powr of_int e = 1 / 2 ^ nat (- e)"
  using powr_realpow [of 2 "nat (- e)"] powr_minus [of "2 :: real" "of_int (- e)"]
  by (simp add: inverse_eq_divide)

lemma f32_round_exact:
  assumes "2 powr of_int k \<le> \<bar>x\<bar>" and "\<bar>x\<bar> < 2 powr of_int (k + 1)" and "- 126 \<le> k"
    and "x = of_int m * 2 powr of_int (k - 23)"
  shows "f32_round x = (if f32_max < x then PosInf else if x < - f32_max then NegInf else Finite x)"
proof -
  have x: "x \<noteq> 0" using assms(1) powr_gt_zero [of 2 "of_int k"] by linarith
  have f: "\<lfloor>log 2 \<bar>x\<bar>\<rfloor> = k" using assms(1,2) by (rule floor_log2)
  have e: "max (\<lfloor>log 2 \<bar>x\<bar>\<rfloor> - 23) (- 149) = k - 23" unfolding f using assms(3) by linarith
  have "x / 2 powr of_int (k - 23) = of_int m"
  proof -
    have "2 powr real_of_int (k - 23) \<noteq> 0" by (simp only: powr_eq_0_iff)
    then show ?thesis by (subst assms(4)) simp
  qed
  then have q: "round_half_even (x / 2 powr of_int (k - 23)) = m"
    by (simp only: round_half_even_int)
  from f32_round_eq [OF x e q assms(4)] show ?thesis .
qed


lemma f32_round_100: "f32_round 100 = Finite 100"
proof -
  have p: "(2 :: real) powr of_int 6 = 64" "(2 :: real) powr of_int (6 + 1) = 128"
      "(2 :: real) powr of_int (6 - 23) = 1 / 131072"
    using two_powr_int [of 6] two_powr_int [of 7] two_powr_neg_int [of "- 17"] by simp_all
  have "f32_round 100
      = (if f32_max < 100 then PosInf else if 100 < - f32_max then NegInf else Finite 100)"
  proof (rule f32_round_exact [of 6 100 13107200])
    show "2 powr real_of_int 6 \<le> \<bar>100\<bar>" unfolding p by simp
    show "\<bar>100\<bar> < 2 powr real_of_int (6 + 1)" unfolding p by simp
    show "- 126 \<le> (6 :: int)" by simp
    show "100 = real_of_int 13107200 * 2 powr real_of_int (6 - 23)" unfolding p by simp
  qed
  then show ?thesis by (simp add: f32_max_def)
qed


lemma f32_round_m200: "f32_round (- 200) = Finite (- 200)"
proof -
  have p: "(2 :: real) powr of_int 7 = 128" "(2 :: real) powr of_int (7 + 1) = 256"
      "(2 :: real) powr of_int (7 - 23) = 1 / 65536"
    using two_powr_int [of 7] two_powr_int [of 8] two_powr_neg_int [of "- 16"] by simp_all
  have "f32_round (- 200)
      = (if f32_max < - 200 then PosInf else if - 200 < - f32_max then NegInf else Finite (- 200))"
  proof (rule f32_round_exact [of 7 "- 200" "- 13107200"])
    show "2 powr real_of_int 7 \<le> \<bar>- 200\<bar>" unfolding p by simp
    show "\<bar>- 200\<bar> < 2 powr real_of_int (7 + 1)" unfolding p by simp
    show "- 126 \<le> (7 :: int)" by simp
    show "- 200 = real_of_int (- 13107200) * 2 powr real_of_int (7 - 23)" unfolding p by simp
  qed
  then show ?thesis by (simp add: f32_max_def)
qed

lemma f32_round_overflow: "f32_round (2 ^ 128) = PosInf"
proof -
  have p: "(2 :: real) powr of_int 128 = 2 ^ 128" "(2 :: real) powr of_int (128 + 1) = 2 ^ 129"
      "(2 :: real) powr of_int (128 - 23) = 2 ^ 105"
    using two_powr_int [of 128] two_powr_int [of 129] two_powr_int [of 105] by simp_all
  have "f32_round (2 ^ 128)
      = (if f32_max < 2 ^ 128 then PosInf else if 2 ^ 128 < - f32_max then NegInf
         else Finite (2 ^ 128))"
  proof (rule f32_round_exact [of 128 "2 ^ 128" "2 ^ 23"])
    show "2 powr real_of_int 128 \<le> \<bar>2 ^ 128\<bar>" unfolding p by simp
    show "\<bar>2 ^ 128\<bar> < 2 powr real_of_int (128 + 1)" unfolding p by simp
    show "- 126 \<le> (128 :: int)" by simp
    show "2 ^ 128 = real_of_int (2 ^ 23) * 2 powr real_of_int (128 - 23)" unfolding p by simp
  qed
  then show ?thesis by (simp add: f32_max_def)
qed


lemma f32_round_sigmoid_100: "f32_round (nn_sigmoid 100) = Finite 1"
proof -
  define t :: real where "t = exp (- 100)"
  define y :: real where "y = 1 / (1 + t)"
  have "(2 :: real) ^ 100 \<le> exp 100" using exp_ge_two_power [of 100] by simp
  then have "exp (- 100 :: real) \<le> 1 / 2 ^ 100"
    by (simp add: exp_minus inverse_eq_divide frac_le)
  then have t: "0 < t" "t \<le> 1 / 2 ^ 100" by (simp_all add: t_def)
  have y: "1 - t \<le> y" "y < 1"
  proof -
    have "(1 - t) * (1 + t) \<le> 1" by (simp add: algebra_simps)
    then show "1 - t \<le> y" using t(1) by (simp add: y_def pos_le_divide_eq)
    show "y < 1" using t(1) by (simp add: y_def)
  qed
  have y0: "y \<noteq> 0" "\<bar>y\<bar> = y" using y t by (auto simp: y_def)
  have h: "1 / 2 \<le> y" using y(1) t(2) by simp
  have p: "(2 :: real) powr of_int (- 1) = 1 / 2" "(2 :: real) powr of_int (- 1 + 1) = 1"
      "(2 :: real) powr of_int (- 24) = 1 / 16777216"
    using two_powr_neg_int [of "- 1"] two_powr_neg_int [of "- 24"] by simp_all
  have "\<lfloor>log 2 y\<rfloor> = - 1"
  proof (rule floor_log2)
    show "2 powr real_of_int (- 1) \<le> y" unfolding p using h .
    show "y < 2 powr real_of_int (- 1 + 1)" unfolding p using y(2) .
  qed
  then have e: "max (\<lfloor>log 2 \<bar>y\<bar>\<rfloor> - 23) (- 149) = - 24" unfolding y0(2) by simp
  have q: "round_half_even (y / 2 powr of_int (- 24)) = 16777216"
    unfolding p using y t(2) by (intro round_half_even_up) simp_all
  have r: "(1 :: real) = of_int 16777216 * 2 powr of_int (- 24)" unfolding p by simp
  have "f32_round y = (if f32_max < 1 then PosInf else if 1 < - f32_max then NegInf else Finite 1)"
    by (rule f32_round_eq [OF y0(1) e q r])
  then have "f32_round y = Finite 1" by (simp add: f32_max_def)
  then show ?thesis by (simp add: nn_sigmoid_def y_def t_def)
qed

lemma f32_round_sigmoid_m200: "f32_round (nn_sigmoid (- 200)) = Finite 0"
proof -
  define y :: real where "y = 1 / (1 + exp 200)"
  have e: "(2 :: real) ^ 200 \<le> exp 200" using exp_ge_two_power [of 200] by simp
  have y: "0 < y" unfolding y_def by (simp add: add_pos_pos)
  have "y < 1 / 2 ^ 200" unfolding y_def using e by (intro frac_less2) simp_all
  then have y2: "y < 1 / 2 ^ 200" .
  have y0: "y \<noteq> 0" "\<bar>y\<bar> = y" using y by auto
  have p: "(2 :: real) powr of_int (- 200) = 1 / 2 ^ 200"
      "(2 :: real) powr of_int (- 149) = 1 / 2 ^ 149"
    using two_powr_neg_int [of "- 200"] two_powr_neg_int [of "- 149"] by simp_all
  have "log 2 y < of_int (- 200)"
    using y y2 p(1) by (subst log_less_iff) simp_all
  then have "\<lfloor>log 2 y\<rfloor> < - 200" by (simp only: floor_less_iff)
  then have f: "max (\<lfloor>log 2 \<bar>y\<bar>\<rfloor> - 23) (- 149) = - 149" unfolding y0(2) by linarith
  have "y * 2 ^ 149 < (1 / 2 ^ 200) * 2 ^ 149" using y2 by (intro mult_strict_right_mono) simp_all
  also have "\<dots> \<le> 1 / 2" by simp
  finally have "y * 2 ^ 149 < 1 / 2" .
  moreover have "0 \<le> y * 2 ^ 149" using y by simp
  ultimately have "round_half_even (y * 2 ^ 149) = 0"
    by (intro round_half_even_down) simp_all
  then have q: "round_half_even (y / 2 powr of_int (- 149)) = 0" unfolding p by simp
  have r: "(0 :: real) = of_int 0 * 2 powr of_int (- 149)" by simp
  have "f32_round y = (if f32_max < 0 then PosInf else if 0 < - f32_max then NegInf else Finite 0)"
    by (rule f32_round_eq [OF y0(1) f q r])
  then have "f32_round y = Finite 0" by (simp add: f32_max_def)
  then show ?thesis by (simp add: nn_sigmoid_def y_def)
qed

lemma f32_finiteD: "f32_finite a \<Longrightarrow> \<exists>x. a = Finite x"
  by (cases a) (simp_all add: f32_finite_def)

lemma f32_gate_cases:
  "f32_sigmoid (f32_multiply (Finite s) (f32_subtract (Finite v) (Finite m))) =
     (if s = 0 \<and> \<not> f32_finite (f32_subtract (Finite v) (Finite m)) then NaN
      else f32_sigmoid (f32_multiply (Finite s) (f32_subtract (Finite v) (Finite m)))) \<and>
   (\<not> (s = 0 \<and> \<not> f32_finite (f32_subtract (Finite v) (Finite m))) \<longrightarrow>
      f32_multiply (Finite s) (f32_subtract (Finite v) (Finite m)) \<noteq> NaN)"
  by (cases "f32_round (v - m)")
     (auto simp: f32_finite_def f32_sigmoid_def f32_negate_def)

lemma f32_round_overflow_sum: "f32_round (2 ^ 127 - - (2 ^ 127)) = PosInf"
proof -
  have "(2 :: real) ^ 127 - - (2 ^ 127) = 2 ^ 128" by simp
  then show ?thesis by (simp only: f32_round_overflow)
qed

subsection \<open>A call followed by hand\<close>

text \<open>
  On the tiny cell with the input 3 and the state 0: both gates are \<open>1 / 2\<close>, so the
  sensory numerator is \<open>1 * 1 / 2 * (- 1) = - 1 / 2\<close> and the sensory denominator \<open>1 / 2\<close>;
  the update gives \<open>(1 / 2 * 0 + 1 * 1 / 10 + (1 / 2 - 1 / 2)) / (1 / 2 + 1 + (1 / 2 + 1 / 2))
  = 1 / 25\<close>; the sub-step gives \<open>0 + 1 / 25 * 1 + 1 * 1 / 10 = 7 / 50\<close>.
\<close>

lemmas runtime_defs = sigmoid_def last_dim_def tf_reshape_def tf_subtract_def tf_multiply_def tf_add_def
  tf_divide_def binop_def broadcast_shape_def tf_sigmoid_def tf_map_def tabulate_def entry_def
  source_index_def nn_sigmoid_def tf_reduce_sum_def scalar_def tf_fill_def
  states_getitem0_def states_to_tensor_def tf_stack_def tf_getitem0_def py_int_def

lemma tiny_update:
  "drift_update tiny_variables (Tensor [1, 1] [- 1 / 2]) (Tensor [1, 1] [1 / 2]) (Tensor [1, 1] [0])
   = Some (Tensor [1, 1] [1 / 25])"
  by (simp add: drift_update_def tiny_variables_def runtime_defs)

lemma tiny_map:
  "map_weights_and_biases tiny_cell (Tensor [1, 1] [3])
   = (Some (Tensor [1, 1] [3]), prepared tiny_cell)"
  by (simp add: map_weights_and_biases_def create_input_weights_def prepared_def
        create_input_biases_def tiny_cell_def init_def runtime_defs)

lemma tiny_prepared:
  "vars (prepared tiny_cell) = Some tiny_variables"
  "brownian_motion (prepared tiny_cell) = Some (Tensor [1] [1 / 10])"
  "sde_solver_unfolds (prepared tiny_cell) = 1" "time_step (prepared tiny_cell) = 1"
  "units (prepared tiny_cell) = 1"
  by (simp_all add: prepared_frame prepared_fields tiny_cell_def init_def)

lemma tiny_sensory:
  "drift_sensory (prepared tiny_cell) (Tensor [1, 1] [3]) (StateTuple [Tensor [1, 1] [0]])
   = Some (Tensor [1, 1] [0], tiny_variables, Tensor [1, 1] [- 1 / 2], Tensor [1, 1] [1 / 2])"
  by (simp add: drift_sensory_def tiny_prepared tiny_variables_def runtime_defs)

lemma drift_loop_one: "drift_loop p 1 wn wd v = drift_update p wn wd v"
  by (cases "drift_update p wn wd v") simp_all

lemma euler_maruyama_loop_one: "euler_maruyama_loop c 1 x s = euler_maruyama_step c x s"
  by (cases "euler_maruyama_step c x s") simp_all

lemma tiny_drift:
  "sde_solver_drift (prepared tiny_cell) (Tensor [1, 1] [3]) (StateTuple [Tensor [1, 1] [0]])
   = Some (Tensor [1, 1] [1 / 25])"
  unfolding sde_solver_drift_def tiny_sensory tiny_prepared
  by (simp only: drift_loop_one tiny_update bind.simps prod.case)

lemma tiny_step:
  "euler_maruyama_step (prepared tiny_cell) (Tensor [1, 1] [3]) (StateTuple [Tensor [1, 1] [0]])
   = Some (StateTensor (Tensor [1, 1] [7 / 50]))"
  unfolding euler_maruyama_step_def tiny_drift tiny_prepared
  by (simp add: sde_solver_diffusion_def runtime_defs)

lemma tiny_call:
  "fst (call tiny_cell (Tensor [1, 1] [3]) (StateTuple [Tensor [1, 1] [0]]))
   = Some (StateTensor (Tensor [1, 1] [7 / 50]), StateTensor (Tensor [1, 1] [7 / 50]))"
  unfolding call_def tiny_map sde_solver_euler_maruyama_def tiny_prepared
  by (simp only: tiny_prepared euler_maruyama_loop_one tiny_step bind.simps prod.case fst_conv Let_def)

subsection \<open>The example cell\<close>

lemma valid_inputs_one: "valid_inputs 1 n x \<Longrightarrow> shape x = [n] \<or> shape x = [1, n]"
  by (auto simp: valid_inputs_def)

lemma state_shapes_valid: "valid_states b u sts \<Longrightarrow> state_shapes sts = [[b, u]]"
  by (auto simp: valid_states_def state_shapes_def split: states.splits list.splits)

lemma example_variables_ok: "variables_ok 2 2 example_variables"
  by (simp add: example_variables_def variables_ok_def scalar_def)

lemma example_cell_valid: "valid_cell 1 2 2 example_cell"
  by (simp add: valid_cell_def example_cell_def init_def example_variables_ok py_int_def)

lemma example_inputs_valid: "valid_inputs 1 2 example_inputs"
  by (simp add: valid_inputs_def example_inputs_def)

lemma example_states_valid: "valid_states 1 2 example_states"
  by (simp add: valid_states_def example_states_def)

lemma example_states_getitem0: "states_getitem0 example_states = Some (Tensor [1, 2] [0, 0])"
  by (simp add: example_states_def states_getitem0_def)

section \<open>The claims\<close>

text \<open>
  C1. For a built cell, an input vector of \<open>n\<close> features and a previous state of \<open>u\<close>
  values, the drift computation succeeds and returns the row of values obtained by
  forming the sensory numerator and denominator once from the input (sums over the
  input features of the sensory weight times the gate, with and without the sensory
  reversal potential) and then applying the conductance-balance update
  \<open>(cm_t * v + gleak * vleak + sum(rev_activation) + sensory_numerator) /
  (cm_t + gleak + sum(w_activation) + sensory_denominator)\<close> as many times as the
  sub-step count says, starting from the previous state.
\<close>

theorem drift_iterates_conductance_balance:
  assumes "vars c = Some p" and "variables_ok n u p" and "0 < n" and "0 < u"
    and "valid_inputs 1 n x"
    and "states_getitem0 sts = Some v" and "shape v = [u] \<or> shape v = [1, u]"
  shows "\<exists>r. sde_solver_drift c x sts = Some r \<and>
     shape r = (if sde_solver_unfolds c = 0 then shape v else [1, u]) \<and>
     data r = spec_drift p n u (sde_solver_unfolds c) (data x) (data v)"
  using sde_solver_drift_data [OF assms(1-4) valid_inputs_one [OF assms(5)] assms(6,7)] .

theorem drift_iterates_conductance_balance_witness:
  "vars example_cell = Some example_variables \<and> variables_ok 2 2 example_variables \<and>
   valid_inputs 1 2 example_inputs \<and>
   states_getitem0 example_states = Some (Tensor [1, 2] [0, 0]) \<and>
   (\<exists>r. sde_solver_drift example_cell example_inputs example_states = Some r \<and>
        shape r = [1, 2] \<and>
        data r = spec_drift example_variables 2 2 6 [1 / 10, 1 / 5] [0, 0])"
proof -
  have h: "vars example_cell = Some example_variables"
      "shape (Tensor [1, 2] [0, 0 :: real]) = [2] \<or> shape (Tensor [1, 2] [0, 0 :: real]) = [1, 2]"
    by (simp_all add: example_cell_def init_def)
  have u: "sde_solver_unfolds example_cell = 6"
    by (simp add: example_cell_def init_def)
  from drift_iterates_conductance_balance [OF h(1) example_variables_ok _ _ example_inputs_valid
      example_states_getitem0 h(2)] h u example_variables_ok example_inputs_valid
    example_states_getitem0
  show ?thesis by (simp add: example_inputs_def)
qed

text \<open>
  C2. The outer stepper runs the sub-step exactly as many times as the sub-step count
  says (6 after \<^verbatim>\<open>__init__\<close>, the count the drift loop uses too) and returns the state
  after the last one; each sub-step is
  \<open>state + drift(input, state) * time_step + diffusion(input, state) * noise\<close> followed by
  the reshape. A call that returns has entered the conductance-balance update exactly
  (sub-step count)\<open>\<^sup>2\<close> times.
\<close>

theorem euler_maruyama_runs_unfolds_steps:
  assumes "brownian_motion c = Some noise"
  shows "sde_solver_euler_maruyama c x sts =
       spec_iterate (sde_solver_unfolds c) (spec_euler_maruyama_update noise c x) sts \<and>
     (fst (call c x sts) \<noteq> None \<longrightarrow> call_count c x sts = (sde_solver_unfolds c)\<^sup>2) \<and>
     sde_solver_unfolds (init m) = 6"
proof -
  have "euler_maruyama_step c x = spec_euler_maruyama_update noise c x"
    using assms by (auto simp: euler_maruyama_step_spec)
  then show ?thesis
    using call_count_ok [of c x sts]
    by (simp add: sde_solver_euler_maruyama_def euler_maruyama_loop_iterate init_def)
qed

theorem euler_maruyama_runs_unfolds_steps_witness:
  "brownian_motion example_cell = Some (Tensor [2] [1 / 10, - 1 / 5]) \<and>
   sde_solver_euler_maruyama example_cell example_inputs example_states =
     spec_iterate 6
       (spec_euler_maruyama_update (Tensor [2] [1 / 10, - 1 / 5]) example_cell example_inputs)
       example_states \<and>
   fst (call example_cell example_inputs example_states) \<noteq> None \<and>
   call_count example_cell example_inputs example_states = 36"
proof -
  have h: "brownian_motion example_cell = Some (Tensor [2] [1 / 10, - 1 / 5])"
    and u: "sde_solver_unfolds example_cell = 6"
    by (simp_all add: example_cell_def init_def)
  have ok: "fst (call example_cell example_inputs example_states) \<noteq> None"
    using call_valid [OF example_cell_valid example_inputs_valid example_states_valid] by auto
  from euler_maruyama_runs_unfolds_steps [OF h, of example_inputs example_states] h u ok
  show ?thesis by simp
qed

text \<open>
  C3, as stated: the next state has the shape of the incoming state for all valid shapes.
  It has not for a state the cell accepts: on the example cell (time step 1, two units)
  a state given as a vector of two values, in a one-tuple, comes back with the shape
  \<open>[1, 2]\<close>, not \<open>[2]\<close>.
\<close>

theorem call_state_shape_counterexample:
  "map_option (state_shapes \<circ> snd)
     (fst (call example_cell example_inputs (StateTuple [Tensor [2] [0, 0]]))) = Some [[1, 2]] \<and>
   state_shapes (StateTuple [Tensor [2] [0, 0]]) = [[2]]"
proof -
  have k: "0 < sde_solver_unfolds example_cell" by (simp add: example_cell_def init_def)
  obtain ns where "call example_cell example_inputs (StateTuple [Tensor [2] [0, 0]])
        = (Some (ns, ns), prepared example_cell)" "valid_states 1 2 ns"
    using call_vector [OF example_cell_valid example_inputs_valid _ k, of "Tensor [2] [0, 0]"]
    by auto
  then show ?thesis by (simp add: state_shapes_valid) (simp add: state_shapes_def)
qed

text \<open>
  C3, amended. Whenever a call with at least one sub-step and a time step whose integer
  part is not negative returns, the next state has the shape
  \<open>[int(time_step), units]\<close>, whatever the shape of the incoming state: \<open>[1, units]\<close>
  when the time step is 1, and the shape of the incoming state exactly when that was
  \<open>[int(time_step), units]\<close> already. The call returns for a batch of \<open>b\<close> input vectors
  and a state of shape \<open>[b, units]\<close> with \<open>b = int(time_step) \<ge> 1\<close>, which keeps its
  shape; with \<open>int(time_step) = 1\<close> it returns also for a state given as a vector of
  \<open>units\<close> values in a one-tuple, which comes back with the shape \<open>[1, units]\<close>.
\<close>

theorem call_next_state_shape:
  "(fst (call c x sts) = Some (out, ns) \<and> 0 < sde_solver_unfolds c \<and> 0 \<le> py_int (time_step c) \<longrightarrow>
      state_shapes ns = [[nat (py_int (time_step c)), units c]] \<and>
      (time_step c = 1 \<longrightarrow> state_shapes ns = [[1, units c]]) \<and>
      (state_shapes ns = state_shapes sts
         \<longleftrightarrow> state_shapes sts = [[nat (py_int (time_step c)), units c]])) \<and>
   (valid_cell b n u c \<and> valid_inputs b n x \<and> valid_states b u sts \<longrightarrow>
      (\<exists>ns'. fst (call c x sts) = Some (ns', ns') \<and> state_shapes ns' = state_shapes sts)) \<and>
   (valid_cell 1 n u c \<and> valid_inputs 1 n x \<and> shape t = [u] \<and> 0 < sde_solver_unfolds c \<longrightarrow>
      (\<exists>ns'. fst (call c x (StateTuple [t])) = Some (ns', ns') \<and>
         state_shapes ns' = [[1, u]] \<and> state_shapes (StateTuple [t]) = [[u]]))"
proof (intro conjI impI)
  assume a: "fst (call c x sts) = Some (out, ns) \<and> 0 < sde_solver_unfolds c \<and>
      0 \<le> py_int (time_step c)"
  then show s: "state_shapes ns = [[nat (py_int (time_step c)), units c]]"
    using call_shape by blast
  then show "state_shapes ns = state_shapes sts
      \<longleftrightarrow> state_shapes sts = [[nat (py_int (time_step c)), units c]]"
    by auto
  assume "time_step c = 1"
  then show "state_shapes ns = [[1, units c]]" using s by (simp add: py_int_def)
next
  assume a: "valid_cell b n u c \<and> valid_inputs b n x \<and> valid_states b u sts"
  then obtain ns' where "call c x sts = (Some (ns', ns'), prepared c)" "valid_states b u ns'"
    using call_valid by blast
  then show "\<exists>ns'. fst (call c x sts) = Some (ns', ns') \<and> state_shapes ns' = state_shapes sts"
    using a by (auto simp: state_shapes_valid)
next
  assume a: "valid_cell 1 n u c \<and> valid_inputs 1 n x \<and> shape t = [u] \<and> 0 < sde_solver_unfolds c"
  then obtain ns' where "call c x (StateTuple [t]) = (Some (ns', ns'), prepared c)"
      "valid_states 1 u ns'"
    using call_vector by blast
  then show "\<exists>ns'. fst (call c x (StateTuple [t])) = Some (ns', ns') \<and>
      state_shapes ns' = [[1, u]] \<and> state_shapes (StateTuple [t]) = [[u]]"
    using a by (auto simp: state_shapes_valid) (simp add: state_shapes_def)
qed

theorem call_next_state_shape_witness:
  "(\<exists>ns. fst (call example_cell example_inputs example_states) = Some (ns, ns) \<and>
      state_shapes ns = [[1, 2]] \<and> state_shapes ns = state_shapes example_states) \<and>
   (\<exists>ns. fst (call example_cell example_inputs (StateTuple [Tensor [2] [0, 0]])) = Some (ns, ns) \<and>
      state_shapes ns = [[1, 2]] \<and> state_shapes (StateTuple [Tensor [2] [0, 0 :: real]]) = [[2]])"
proof -
  have k: "0 < sde_solver_unfolds example_cell" "time_step example_cell = 1"
      "units example_cell = 2" "0 \<le> py_int (time_step example_cell)"
    by (simp_all add: example_cell_def init_def py_int_def)
  note th = call_next_state_shape [of example_cell example_inputs example_states _ _ 1 2 2
      "Tensor [2] [0, 0]"]
  obtain ns where ns: "fst (call example_cell example_inputs example_states) = Some (ns, ns)"
      "state_shapes ns = state_shapes example_states"
    using th example_cell_valid example_inputs_valid example_states_valid by blast
  have "state_shapes ns = [[1, 2]]"
    using call_next_state_shape [of example_cell example_inputs example_states ns ns 1 2 2
      "Tensor [2] [0, 0]"] ns(1) k by (simp add: py_int_def)
  moreover obtain ns' where
     "fst (call example_cell example_inputs (StateTuple [Tensor [2] [0, 0]])) = Some (ns', ns')"
     "state_shapes ns' = [[1, 2]]" "state_shapes (StateTuple [Tensor [2] [0, 0 :: real]]) = [[2]]"
    using th example_cell_valid example_inputs_valid k(1) by auto
  ultimately show ?thesis using ns by blast
qed

text \<open>
  C4. For a built cell, after any sequence of calls that return, a call on an input and
  a state returns what it returns on the cell as built; so any two calls on the same
  input and state, with any calls that return between them, return the same result. In
  particular, when a call returns, the same call made again returns the same pair.
  (Samples are drawn by \<open>build\<close> only; \<open>call\<close> takes none.)
\<close>

theorem call_deterministic:
  assumes "build c0 input_shape smp = Some c"
    and "after_calls c calls = Some c1" and "after_calls c1 calls' = Some c2"
  shows "fst (call c1 x sts) = fst (call c x sts) \<and>
     fst (call c2 x sts) = fst (call c1 x sts) \<and>
     (fst (call c1 x sts) \<noteq> None \<longrightarrow>
        fst (call (snd (call c1 x sts)) x sts) = fst (call c1 x sts))"
  using call_after_calls [OF assms(2)] call_after_calls [OF assms(3)]
  by (simp add: snd_call call_prepared)

theorem call_deterministic_witness:
  "\<exists>c c1. build (init 2) [1, 2] example_samples = Some c \<and>
     after_calls c [(example_inputs, example_states)] = Some c1 \<and>
     after_calls c1 [(example_inputs, example_states)] \<noteq> None \<and>
     fst (call c example_inputs example_states) \<noteq> None \<and>
     fst (call c1 example_inputs example_states) = fst (call c example_inputs example_states) \<and>
     fst (call (snd (call c1 example_inputs example_states)) example_inputs example_states)
       = fst (call c1 example_inputs example_states)"
proof -
  obtain c where c: "build (init 2) [1, 2] example_samples = Some c" "valid_cell 1 2 2 c"
    using build_init [of "[1, 2]" 2 example_samples] by auto
  obtain ns where r: "call c example_inputs example_states = (Some (ns, ns), prepared c)"
      and v: "valid_cell 1 2 2 (prepared c)"
    using call_valid [OF c(2) example_inputs_valid example_states_valid] by blast
  obtain ns' where r': "call (prepared c) example_inputs example_states
        = (Some (ns', ns'), prepared (prepared c))"
    using call_valid [OF v example_inputs_valid example_states_valid] by blast
  have a: "after_calls c [(example_inputs, example_states)] = Some (prepared c)"
    using r by simp
  have a': "after_calls (prepared c) [(example_inputs, example_states)]
      = Some (prepared (prepared c))"
    using r' by simp
  from call_deterministic [OF c(1) a a', of example_inputs example_states] c(1) a a' r r'
  show ?thesis by auto
qed

text \<open>
  C5. When the sensory and the recurrent weight matrices are all zero, the sensory
  numerator and denominator are zero, every run of the loop body of the drift is the leak
  update \<open>(cm_t * v + gleak * vleak) / (cm_t + gleak)\<close>, the drift is that update iterated,
  and it is the same for every input vector.
\<close>

theorem zero_weights_leak_dynamics:
  assumes "vars c = Some p" and "variables_ok n u p" and "0 < n" and "0 < u"
    and "sensory_W p = tf_fill [n, u] 0" and "W p = tf_fill [u, u] 0"
    and "valid_inputs 1 n x" and "valid_inputs 1 n x'"
    and "states_getitem0 sts = Some v" and "shape v = [u] \<or> shape v = [1, u]"
  shows "\<exists>wn wd r.
     drift_sensory c x sts = Some (v, p, wn, wd) \<and>
     (\<forall>w. shape w = [u] \<or> shape w = [1, u] \<longrightarrow>
        (\<exists>q. drift_update p wn wd w = Some q \<and> data q = spec_leak_update p u (data w))) \<and>
     sde_solver_drift c x sts = Some r \<and>
     data r = (spec_leak_update p u ^^ sde_solver_unfolds c) (data v) \<and>
     sde_solver_drift c x' sts = Some r"
proof -
  note z = zero_weights_drift [OF assms(1-6) _ assms(9,10)]
  note zx = z [OF valid_inputs_one [OF assms(7)]]
  note zx' = z [OF valid_inputs_one [OF assms(8)]]
  obtain r where r: "sde_solver_drift c x sts = Some r"
      "data r = (spec_leak_update p u ^^ sde_solver_unfolds c) (data v)"
    using zx(3) by blast
  have "sde_solver_drift c x' sts = sde_solver_drift c x sts"
    using zx(1) zx'(1) by (simp add: sde_solver_drift_def)
  moreover have "\<forall>w. shape w = [u] \<or> shape w = [1, u] \<longrightarrow>
      (\<exists>q. drift_update p (tf_fill [1, u] 0) (tf_fill [1, u] 0) w = Some q \<and>
           data q = spec_leak_update p u (data w))"
    using zx(2) by blast
  ultimately show ?thesis using zx(1) r by auto
qed

theorem zero_weights_leak_dynamics_witness:
  "vars example_zero_weight_cell = Some example_zero_weight_variables \<and>
   variables_ok 2 2 example_zero_weight_variables \<and>
   sensory_W example_zero_weight_variables = tf_fill [2, 2] 0 \<and>
   W example_zero_weight_variables = tf_fill [2, 2] 0 \<and>
   valid_inputs 1 2 example_inputs \<and> valid_inputs 1 2 (Tensor [2] [7, 9]) \<and>
   (\<exists>r. sde_solver_drift example_zero_weight_cell example_inputs example_states = Some r \<and>
        data r = (spec_leak_update example_zero_weight_variables 2 ^^ 6) [0, 0] \<and>
        sde_solver_drift example_zero_weight_cell (Tensor [2] [7, 9]) example_states = Some r)"
proof -
  let ?p = example_zero_weight_variables
  let ?c = example_zero_weight_cell
  have h: "vars ?c = Some ?p" "variables_ok 2 2 ?p" "sensory_W ?p = tf_fill [2, 2] 0"
      "W ?p = tf_fill [2, 2] 0" "valid_inputs 1 2 (Tensor [2] [7, 9])"
      "shape (Tensor [1, 2] [0, 0 :: real]) = [2] \<or> shape (Tensor [1, 2] [0, 0 :: real]) = [1, 2]"
    using example_variables_ok
    by (simp_all add: variables_ok_def valid_inputs_def example_zero_weight_variables_def
          example_zero_weight_cell_def)
  have u: "sde_solver_unfolds ?c = 6"
    by (simp add: example_zero_weight_cell_def example_cell_def init_def)
  from zero_weights_leak_dynamics [OF h(1,2) _ _ h(3,4) example_inputs_valid h(5)
      example_states_getitem0 h(6)] u h example_inputs_valid
  show ?thesis by auto
qed

text \<open>
  C6. The diffusion term is 1 for every cell, input and state. For a built cell whose
  noise vector is all zero, and an input and a state of the shapes above, a sub-step
  of the outer loop succeeds and is the deterministic Euler sub-step
  \<open>state + drift * time_step\<close> (followed by the same reshape).
\<close>

theorem zero_noise_is_euler_step:
  assumes "valid_cell b n u c" and "valid_inputs b n x" and "valid_states b u sts"
    and "brownian_motion c = Some (tf_fill [units c] 0)"
  shows "(\<forall>c' x' sts'. sde_solver_diffusion c' x' sts' = 1) \<and>
     (\<exists>t. euler_maruyama_step c x sts = Some t \<and> spec_euler_update c x sts = Some t)"
  using zero_noise_step [OF assms] by (simp add: sde_solver_diffusion_def)

theorem zero_noise_is_euler_step_witness:
  "valid_cell 1 2 2 (example_cell\<lparr>brownian_motion := Some (tf_fill [2] 0)\<rparr>) \<and>
   valid_inputs 1 2 example_inputs \<and> valid_states 1 2 example_states \<and>
   sde_solver_diffusion example_cell example_inputs example_states = 1 \<and>
   (\<exists>t. euler_maruyama_step (example_cell\<lparr>brownian_motion := Some (tf_fill [2] 0)\<rparr>)
          example_inputs example_states = Some t \<and>
        spec_euler_update (example_cell\<lparr>brownian_motion := Some (tf_fill [2] 0)\<rparr>)
          example_inputs example_states = Some t)"
proof -
  let ?c = "example_cell\<lparr>brownian_motion := Some (tf_fill [2] 0)\<rparr>"
  have v: "valid_cell 1 2 2 ?c"
    using example_cell_valid by (simp add: valid_cell_def)
  have z: "brownian_motion ?c = Some (tf_fill [units ?c] 0)"
    by (simp add: example_cell_def init_def)
  from zero_noise_is_euler_step [OF v example_inputs_valid example_states_valid z]
    v example_inputs_valid example_states_valid
  show ?thesis by simp
qed

text \<open>
  C7. With the sub-step count set to 1, for a built cell, an input vector of \<open>n\<close>
  features and a previous state of \<open>u\<close> values, the drift computation succeeds and
  returns the result of exactly one conductance-balance update of the previous state:
  one application of the numerator/denominator formula with the sensory numerator and
  denominator of the input, not iterated. The update is entered once.
\<close>

theorem single_unfold_is_one_update:
  assumes "vars c = Some p" and "variables_ok n u p" and "0 < n" and "0 < u"
    and "valid_inputs 1 n x"
    and "states_getitem0 sts = Some v" and "shape v = [u] \<or> shape v = [1, u]"
    and "sde_solver_unfolds c = 1"
  shows "\<exists>r. sde_solver_drift c x sts = Some r \<and> shape r = [1, u] \<and>
     data r = spec_conductance_balance p u (spec_sensory_numerator p n (data x))
                (spec_sensory_denominator p n (data x)) (data v) \<and>
     sde_solver_drift_count c x sts = 1"
proof -
  obtain r where r: "sde_solver_drift c x sts = Some r"
      "shape r = (if sde_solver_unfolds c = 0 then shape v else [1, u])"
      "data r = spec_drift p n u (sde_solver_unfolds c) (data x) (data v)"
    using sde_solver_drift_data [OF assms(1-4) valid_inputs_one [OF assms(5)] assms(6,7)]
    by blast
  have "sde_solver_drift_count c x sts = 1"
    using sde_solver_drift_count_ok [of c x sts] r(1) assms(8) by simp
  then show ?thesis using r assms(8) by (simp add: spec_drift_def)
qed

theorem single_unfold_is_one_update_witness:
  "vars (example_cell\<lparr>sde_solver_unfolds := 1\<rparr>) = Some example_variables \<and>
   variables_ok 2 2 example_variables \<and> valid_inputs 1 2 example_inputs \<and>
   states_getitem0 example_states = Some (Tensor [1, 2] [0, 0]) \<and>
   sde_solver_unfolds (example_cell\<lparr>sde_solver_unfolds := 1\<rparr>) = 1 \<and>
   (\<exists>r. sde_solver_drift (example_cell\<lparr>sde_solver_unfolds := 1\<rparr>) example_inputs example_states
          = Some r \<and>
        shape r = [1, 2] \<and>
        data r = spec_conductance_balance example_variables 2
                   (spec_sensory_numerator example_variables 2 [1 / 10, 1 / 5])
                   (spec_sensory_denominator example_variables 2 [1 / 10, 1 / 5]) [0, 0] \<and>
        sde_solver_drift_count (example_cell\<lparr>sde_solver_unfolds := 1\<rparr>) example_inputs
          example_states = 1)"
proof -
  let ?c = "example_cell\<lparr>sde_solver_unfolds := 1\<rparr>"
  have h: "vars ?c = Some example_variables" "sde_solver_unfolds ?c = 1"
      "shape (Tensor [1, 2] [0, 0 :: real]) = [2] \<or> shape (Tensor [1, 2] [0, 0 :: real]) = [1, 2]"
    by (simp_all add: example_cell_def init_def)
  from single_unfold_is_one_update [OF h(1) example_variables_ok _ _ example_inputs_valid
      example_states_getitem0 h(3) h(2)] h example_variables_ok example_inputs_valid
    example_states_getitem0
  show ?thesis by (simp add: example_inputs_def)
qed

text \<open>
  C8, as stated: the gating function returns an \<open>[N, units]\<close> matrix whose entries lie
  strictly between 0 and 1 for all finite arguments. On 32-bit floats, for the vector
  \<^verbatim>\<open>[100, -200, 2^127]\<close>, \<^verbatim>\<open>mu = [[0], [0], [-2^127]]\<close> and
  \<^verbatim>\<open>sigma = [[1], [1], [0]]\<close>, all finite, the result has three dimensions, and its
  entries are exactly 1, exactly 0 and NaN.
\<close>

theorem gating_float32_counterexample:
  "sigmoid_float32 (Tensor [3] [Finite 100, Finite (- 200), Finite (2 ^ 127)])
     (Tensor [3, 1] [Finite 0, Finite 0, Finite (- (2 ^ 127))])
     (Tensor [3, 1] [Finite 1, Finite 1, Finite 0])
   = Some (Tensor [1, 3, 1] [Finite 1, Finite 0, NaN])"
proof -
  let ?v = "Tensor [3] [Finite 100, Finite (- 200), Finite (2 ^ 127)]"
  let ?m = "Tensor [3, 1] [Finite 0, Finite 0, Finite (- (2 ^ 127))]"
  let ?s = "Tensor [3, 1] [Finite 1, Finite 1, Finite 0]"
  have i: "[0..<3] = [0, 1, 2]" by (simp add: numeral_3_eq_3)
  let ?w = "Tensor [1, 3, 1] [Finite 100, Finite (- 200), Finite (2 ^ 127)]"
  have l: "last_dim ?v = Some 3" by (simp add: last_dim_def)
  have r: "tf_reshape ?v [- 1, int 3, 1] = Some ?w"
    by (simp add: tf_reshape_def)
  have d: "binop f32_subtract ?w ?m
      = Some (Tensor [1, 3, 1] [f32_subtract (Finite 100) (Finite 0),
           f32_subtract (Finite (- 200)) (Finite 0),
           f32_subtract (Finite (2 ^ 127)) (Finite (- (2 ^ 127)))])"
    by (simp add: binop_def broadcast_shape_def tabulate_def entry_def source_index_def i
          del: f32_subtract.simps)
  have d': "[f32_subtract (Finite 100) (Finite 0), f32_subtract (Finite (- 200)) (Finite 0),
        f32_subtract (Finite (2 ^ 127)) (Finite (- (2 ^ 127)))]
      = [Finite 100, Finite (- 200), PosInf]"
    by (simp only: f32_subtract.simps f32_round_overflow_sum diff_zero f32_round_100 f32_round_m200)
  have x: "binop f32_multiply ?s (Tensor [1, 3, 1] [Finite 100, Finite (- 200), PosInf])
      = Some (Tensor [1, 3, 1] [f32_multiply (Finite 1) (Finite 100),
           f32_multiply (Finite 1) (Finite (- 200)), f32_multiply (Finite 0) PosInf])"
    by (simp add: binop_def broadcast_shape_def tabulate_def entry_def source_index_def i
          del: f32_multiply.simps)
  have x': "[f32_multiply (Finite 1) (Finite 100), f32_multiply (Finite 1) (Finite (- 200)),
        f32_multiply (Finite 0) PosInf] = [Finite 100, Finite (- 200), NaN]"
    by (simp add: f32_round_100 f32_round_m200)
  have g: "tf_map f32_sigmoid (Tensor [1, 3, 1] [Finite 100, Finite (- 200), NaN])
      = Tensor [1, 3, 1] [Finite 1, Finite 0, NaN]"
    by (simp add: tf_map_def f32_sigmoid_def f32_round_sigmoid_100 f32_round_sigmoid_m200)
  show ?thesis
    by (simp only: sigmoid_float32_def l r d [unfolded d'] x [unfolded x'] g bind.bind_lunit)
qed

text \<open>
  C8, amended. For a vector \<open>v\<close> of length \<open>N\<close> and parameters \<open>mu\<close>, \<open>sigma\<close> of shape
  \<open>[N, units]\<close>, the gating function returns a tensor of shape \<open>[1, N, units]\<close> (the
  \<open>[N, units]\<close> matrix under a leading axis of length 1) whose entry \<open>[0, i, j]\<close> is
  \<open>sigmoid(sigma[i, j] * (v[i] - mu[i, j]))\<close>: the vector is broadcast across the units.
  For finite \<open>v[i]\<close>, \<open>mu[i, j]\<close> and \<open>sigma[i, j]\<close> the entry lies in the closed interval
  from 0 to 1, except that it is NaN when \<open>sigma[i, j]\<close> is 0 and \<open>v[i] - mu[i, j]\<close>
  overflows.
\<close>

theorem gating_float32_entries:
  assumes "shape v = [n]" and "shape m = [n, u]" and "shape s = [n, u]"
  shows "\<exists>g. sigmoid_float32 v m s = Some g \<and> shape g = [1, n, u] \<and>
     (\<forall>i j. i < n \<and> j < u \<longrightarrow>
        entry g [0, i, j]
          = f32_sigmoid (f32_multiply (entry s [i, j])
              (f32_subtract (entry v [i]) (entry m [i, j]))) \<and>
        (f32_finite (entry v [i]) \<and> f32_finite (entry m [i, j]) \<and> f32_finite (entry s [i, j]) \<longrightarrow>
           (if entry s [i, j] = Finite 0 \<and>
               \<not> f32_finite (f32_subtract (entry v [i]) (entry m [i, j]))
            then entry g [0, i, j] = NaN
            else \<exists>r. entry g [0, i, j] = Finite r \<and> 0 \<le> r \<and> r \<le> 1)))"
proof -
  obtain g where g: "sigmoid_float32 v m s = Some g" "shape g = [1, n, u]"
    and ge: "\<And>i j. i < n \<Longrightarrow> j < u \<Longrightarrow> entry g [0, i, j]
          = f32_sigmoid (f32_multiply (entry s [i, j])
              (f32_subtract (entry v [i]) (entry m [i, j])))"
    using sigmoid_float32_entry [OF assms] by blast
  have "if a = Finite 0 \<and> \<not> f32_finite (f32_subtract b c)
        then f32_sigmoid (f32_multiply a (f32_subtract b c)) = NaN
        else \<exists>r. f32_sigmoid (f32_multiply a (f32_subtract b c)) = Finite r \<and> 0 \<le> r \<and> r \<le> 1"
    if fin: "f32_finite a" "f32_finite b" "f32_finite c" for a b c
  proof -
    obtain x y z where a: "a = Finite x" "b = Finite y" "c = Finite z"
      using fin f32_finiteD by blast
    show ?thesis
      using f32_gate_cases [of x y z]
        f32_sigmoid_unit [of "f32_multiply (Finite x) (f32_subtract (Finite y) (Finite z))"]
      unfolding a by (auto simp del: f32_subtract.simps f32_multiply.simps)
  qed
  then show ?thesis using g ge by auto
qed

theorem gating_float32_entries_witness:
  "\<exists>g. sigmoid_float32 (Tensor [3] [Finite 0, Finite 100, Finite (2 ^ 127)])
          (Tensor [3, 1] [Finite 0, Finite 0, Finite (- (2 ^ 127))])
          (Tensor [3, 1] [Finite 1, Finite 1, Finite 0]) = Some g \<and>
      shape g = [1, 3, 1] \<and>
      (\<exists>r. entry g [0, 0, 0] = Finite r \<and> 0 \<le> r \<and> r \<le> 1) \<and>
      entry g [0, 1, 0] = Finite 1 \<and>
      entry g [0, 2, 0] = NaN"
proof -
  let ?v = "Tensor [3] [Finite 0, Finite 100, Finite (2 ^ 127)]"
  let ?m = "Tensor [3, 1] [Finite 0, Finite 0, Finite (- (2 ^ 127))]"
  let ?s = "Tensor [3, 1] [Finite 1, Finite 1, Finite 0]"
  have h: "shape ?v = [3]" "shape ?m = [3, 1]" "shape ?s = [3, 1]" by simp_all
  have e: "entry ?v [0] = Finite 0" "entry ?m [0, 0] = Finite 0" "entry ?s [0, 0] = Finite 1"
      "entry ?v [1] = Finite 100" "entry ?m [1, 0] = Finite 0" "entry ?s [1, 0] = Finite 1"
      "entry ?v [2] = Finite (2 ^ 127)" "entry ?m [2, 0] = Finite (- (2 ^ 127))"
      "entry ?s [2, 0] = Finite 0"
    by (simp_all add: entry_def)
  have o: "f32_subtract (Finite (2 ^ 127)) (Finite (- (2 ^ 127))) = PosInf"
    by (simp only: f32_subtract.simps f32_round_overflow_sum)
  from gating_float32_entries [OF h]
  obtain g where g: "sigmoid_float32 ?v ?m ?s = Some g" "shape g = [1, 3, 1]"
    and ge: "\<And>i j. i < 3 \<and> j < 1 \<Longrightarrow>
        entry g [0, i, j]
          = f32_sigmoid (f32_multiply (entry ?s [i, j])
              (f32_subtract (entry ?v [i]) (entry ?m [i, j]))) \<and>
        (f32_finite (entry ?v [i]) \<and> f32_finite (entry ?m [i, j]) \<and> f32_finite (entry ?s [i, j]) \<longrightarrow>
           (if entry ?s [i, j] = Finite 0 \<and>
               \<not> f32_finite (f32_subtract (entry ?v [i]) (entry ?m [i, j]))
            then entry g [0, i, j] = NaN
            else \<exists>r. entry g [0, i, j] = Finite r \<and> 0 \<le> r \<and> r \<le> 1))"
    by blast
  have a: "\<exists>r. entry g [0, 0, 0] = Finite r \<and> 0 \<le> r \<and> r \<le> 1"
    using ge [of 0 0, THEN conjunct2] unfolding e by (simp add: f32_finite_def)
  have b: "entry g [0, 1, 0] = Finite 1"
    using ge [of 1 0, THEN conjunct1] unfolding e
    by (simp add: f32_sigmoid_def f32_round_100 f32_round_sigmoid_100)
  have c: "entry g [0, 2, 0] = NaN"
    using ge [of 2 0, THEN conjunct2] unfolding e o by (simp add: f32_finite_def)
  from g a b c show ?thesis by blast
qed

text \<open>
  C9. After \<open>build\<close>, whatever calls are made that return: the variables that \<open>build\<close>
  created are unchanged; the noise vector is the one \<open>build\<close> drew; input weights and
  biases that exist are kept, and the first call that returns has created the missing
  ones as ones and zeros; and every sub-step of the outer loop is the update with the
  noise vector that \<open>build\<close> drew.
\<close>

theorem calls_keep_parameters_and_noise:
  assumes "build c0 input_shape smp = Some c" and "after_calls c calls = Some c'"
  shows "vars c' = vars c \<and>
     brownian_motion c'
       = Some (random_normal [units c0] 0 (sqrt (time_step c0)) (z_brownian smp)) \<and>
     (\<forall>w. input_weights c = Some w \<longrightarrow> input_weights c' = Some w) \<and>
     (\<forall>bi. input_biases c = Some bi \<longrightarrow> input_biases c' = Some bi) \<and>
     (calls \<noteq> [] \<longrightarrow>
        input_weights c'
          = Some (case input_weights c of None \<Rightarrow> tf_fill [nat (input_size c)] 1 | Some w \<Rightarrow> w) \<and>
        input_biases c'
          = Some (case input_biases c of None \<Rightarrow> tf_fill [nat (input_size c)] 0 | Some bi \<Rightarrow> bi)) \<and>
     (\<forall>x sts. euler_maruyama_step c' x sts
        = spec_euler_maruyama_update
            (random_normal [units c0] 0 (sqrt (time_step c0)) (z_brownian smp)) c' x sts)"
proof -
  note b = build_brownian [OF assms(1)]
  note c' = after_calls_cases [OF assms(2)]
  have bm: "brownian_motion c'
      = Some (random_normal [units c0] 0 (sqrt (time_step c0)) (z_brownian smp))"
    using b c' by (simp add: prepared_frame)
  have "euler_maruyama_step c' x sts
      = spec_euler_maruyama_update
          (random_normal [units c0] 0 (sqrt (time_step c0)) (z_brownian smp)) c' x sts" for x sts
    using bm by (simp add: euler_maruyama_step_spec)
  then show ?thesis
    using bm b c' prepared_created [of c]
    by (simp add: prepared_frame)
qed

theorem calls_keep_parameters_and_noise_witness:
  "\<exists>c c'. build (init 2) [1, 2] example_samples = Some c \<and>
     after_calls c [(example_inputs, example_states)] = Some c' \<and>
     vars c' = vars c \<and>
     brownian_motion c' = Some (random_normal [2] 0 (sqrt 1) (z_brownian example_samples)) \<and>
     input_weights c' = Some (tf_fill [2] 1)"
proof -
  obtain c where c: "build (init 2) [1, 2] example_samples = Some c" "valid_cell 1 2 2 c"
    using build_init [of "[1, 2]" 2 example_samples] by auto
  obtain ns where r: "call c example_inputs example_states = (Some (ns, ns), prepared c)"
    using call_valid [OF c(2) example_inputs_valid example_states_valid] by blast
  have a: "after_calls c [(example_inputs, example_states)] = Some (prepared c)"
    using r by simp
  have i: "input_weights c = None" "input_size c = 2"
    using c(1) by (auto simp: build_def init_variables_def init_def Let_def)
  from calls_keep_parameters_and_noise [OF c(1) a] i
  have "vars (prepared c) = vars c \<and>
     brownian_motion (prepared c)
       = Some (random_normal [2] 0 (sqrt 1) (z_brownian example_samples)) \<and>
     input_weights (prepared c) = Some (tf_fill [2] 1)"
    by (simp add: init_def)
  with c(1) a show ?thesis by blast
qed

text \<open>
  C10. Whenever a call returns, the output and the next state it returns are the same
  value.
\<close>

theorem call_output_is_next_state:
  assumes "fst (call c x sts) = Some (out, ns)"
  shows "out = ns"
  using assms by (auto simp: call_def split: prod.splits option.splits Option.bind_splits)

theorem call_output_is_next_state_witness:
  "\<exists>out ns. fst (call example_cell example_inputs example_states) = Some (out, ns) \<and> out = ns"
proof -
  obtain r where r: "fst (call example_cell example_inputs example_states) = Some r"
    using call_valid [OF example_cell_valid example_inputs_valid example_states_valid] by auto
  obtain out ns where "r = (out, ns)" by (cases r)
  with r call_output_is_next_state [of example_cell example_inputs example_states out ns]
  show ?thesis by auto
qed

end
